theory Spec2Isabelle
  imports Complex_Main "HOL-Library.Multiset"
begin

section \<open>Bounded sequence log (queue.ts, class EventQueue)\<close>

text \<open>
  An event of the log is the pushed payload together with the sequence number that
  \<open>push\<close> adds to it (\<open>{ ...evt, seq: this.nextSeq++ }\<close>). The payload is a type
  parameter, as in the generic signature of \<open>push\<close>. Sequence numbers and the capacity
  are integers; a capacity that is not an integer and counters beyond \<open>2^53\<close> are outside
  this model. The limit handed to \<open>listSince\<close> is any JavaScript number: a real, \<open>NaN\<close>,
  \<open>Infinity\<close> or \<open>-Infinity\<close> (\<open>-0\<close> and \<open>0\<close> are one number, and sums are exact).
\<close>

record 'a ChangeEvent =
  seq :: int
  body :: 'a

record 'a EventQueue =
  capacity :: int
  buffer :: "'a ChangeEvent list"
  nextSeq :: int

definition newEventQueue :: "int \<Rightarrow> 'a EventQueue" where
  "newEventQueue c = \<lparr>capacity = max 100 c, buffer = [], nextSeq = 1\<rparr>"

text \<open>\<open>buffer.splice(0, deleteCount)\<close>: removes the first \<open>deleteCount\<close> elements.\<close>

definition splice0 :: "int \<Rightarrow> 'a list \<Rightarrow> 'a list" where
  "splice0 deleteCount xs = drop (nat deleteCount) xs"

definition push :: "'a \<Rightarrow> 'a EventQueue \<Rightarrow> 'a ChangeEvent \<times> 'a EventQueue" where
  "push evt q =
     (let withSeq = \<lparr>seq = nextSeq q, body = evt\<rparr>;
          buf = buffer q @ [withSeq];
          buf' = (if int (length buf) > capacity q
                  then splice0 (int (length buf) - capacity q) buf
                  else buf)
      in (withSeq, q\<lparr>buffer := buf', nextSeq := nextSeq q + 1\<rparr>))"

text \<open>\<open>Array.prototype.findIndex\<close>; the result \<open>-1\<close> of the source is \<open>None\<close>.\<close>

fun findIndex :: "('a \<Rightarrow> bool) \<Rightarrow> 'a list \<Rightarrow> nat option" where
  "findIndex p [] = None"
| "findIndex p (x # xs) =
     (if p x then Some 0 else map_option Suc (findIndex p xs))"

datatype JsNumber = Num real | NaN | PosInfinity | NegInfinity

text \<open>\<open>Math.min\<close>, \<open>Math.max\<close> and \<open>+\<close> on two numbers.\<close>

fun mathMin :: "JsNumber \<Rightarrow> JsNumber \<Rightarrow> JsNumber" where
  "mathMin NaN y = NaN"
| "mathMin x NaN = NaN"
| "mathMin NegInfinity y = NegInfinity"
| "mathMin x NegInfinity = NegInfinity"
| "mathMin PosInfinity y = y"
| "mathMin x PosInfinity = x"
| "mathMin (Num x) (Num y) = Num (min x y)"

fun mathMax :: "JsNumber \<Rightarrow> JsNumber \<Rightarrow> JsNumber" where
  "mathMax NaN y = NaN"
| "mathMax x NaN = NaN"
| "mathMax PosInfinity y = PosInfinity"
| "mathMax x PosInfinity = PosInfinity"
| "mathMax NegInfinity y = y"
| "mathMax x NegInfinity = x"
| "mathMax (Num x) (Num y) = Num (max x y)"

fun jsAdd :: "JsNumber \<Rightarrow> JsNumber \<Rightarrow> JsNumber" where
  "jsAdd NaN y = NaN"
| "jsAdd x NaN = NaN"
| "jsAdd PosInfinity NegInfinity = NaN"
| "jsAdd NegInfinity PosInfinity = NaN"
| "jsAdd PosInfinity y = PosInfinity"
| "jsAdd x PosInfinity = PosInfinity"
| "jsAdd NegInfinity y = NegInfinity"
| "jsAdd x NegInfinity = NegInfinity"
| "jsAdd (Num x) (Num y) = Num (x + y)"

text \<open>
  \<open>Array.prototype.slice(start, end)\<close> for a start index that is a natural number. The
  end goes through \<open>ToIntegerOrInfinity\<close>: \<open>NaN\<close> becomes 0 and a real is truncated
  towards zero; a negative end counts from the length; the end is clipped to the length;
  an end at or before the start gives the empty array.
\<close>

definition slice :: "nat \<Rightarrow> JsNumber \<Rightarrow> 'a list \<Rightarrow> 'a list" where
  "slice start end xs =
     (let len = length xs;
          final = (case end of
                     NaN \<Rightarrow> 0
                   | NegInfinity \<Rightarrow> 0
                   | PosInfinity \<Rightarrow> len
                   | Num r \<Rightarrow>
                       (let relativeEnd = (if r < 0 then \<lceil>r\<rceil> else \<lfloor>r\<rfloor>)
                        in if relativeEnd < 0 then nat (max (int len + relativeEnd) 0)
                           else min (nat relativeEnd) len))
      in take (final - start) (drop start xs))"

definition listSince :: "int \<Rightarrow> JsNumber \<Rightarrow> 'a EventQueue \<Rightarrow> 'a ChangeEvent list" where
  "listSince sinceSeq limit q =
     (case findIndex (\<lambda>e. seq e > sinceSeq) (buffer q) of
        None \<Rightarrow> []
      | Some startIdx \<Rightarrow>
          slice startIdx
            (jsAdd (Num (real startIdx)) (mathMax (Num 1) (mathMin (Num 1000) limit)))
            (buffer q))"

definition latestSeq :: "'a EventQueue \<Rightarrow> int" where
  "latestSeq q = nextSeq q - 1"

definition reset :: "'a EventQueue \<Rightarrow> 'a EventQueue" where
  "reset q = q\<lparr>buffer := [], nextSeq := 1\<rparr>"

text \<open>A run of \<open>push\<close> calls, collecting the events that the calls return.\<close>

fun pushAll :: "'a list \<Rightarrow> 'a EventQueue \<Rightarrow> 'a ChangeEvent list \<times> 'a EventQueue" where
  "pushAll [] q = ([], q)"
| "pushAll (evt # evts) q =
     (case push evt q of (withSeq, q') \<Rightarrow>
        (case pushAll evts q' of (rest, q'') \<Rightarrow> (withSeq # rest, q'')))"

text \<open>
  The states of a queue that the program can produce: the constructor's, and those reached
  from one of them by \<open>push\<close> and \<open>reset\<close>, the only methods that write the fields.
\<close>

inductive reachable :: "'a EventQueue \<Rightarrow> bool" where
  created: "reachable (newEventQueue c)"
| pushed: "reachable q \<Longrightarrow> reachable (snd (push evt q))"
| cleared: "reachable q \<Longrightarrow> reachable (reset q)"

text \<open>A queue of capacity 100 after three pushes, used to instantiate the theorems below.\<close>

definition demoQueue :: "char EventQueue" where
  "demoQueue =
     snd (push CHR ''c'' (snd (push CHR ''b'' (snd (push CHR ''a'' (newEventQueue 100))))))"

section \<open>Real-time tracker (realtime.ts, class RealtimeTracker)\<close>

text \<open>
  JavaScript numbers are modelled by the reals; \<open>-0\<close> and \<open>0\<close> are the same number, as
  they are for \<open>===\<close>, \<open><\<close> and \<open>Math.abs\<close>. The result of \<open>Number(...)\<close> on a field of
  an upstream message is either a finite number or one of \<open>NaN\<close>, \<open>Infinity\<close>,
  \<open>-Infinity\<close>, which \<open>Number.isFinite\<close> rejects alike. Rounding and overflow of
  floating-point addition and multiplication are outside this model.

  Fields of different records share one name space, so every field carries the initials
  of its record before the name it has in the source.
\<close>

datatype jsnum = Finite real | NonFinite

type_synonym Address = string

datatype PositionSide = Long | Short | Flat

datatype TradeSide = Buy | Sell

datatype Effect = Open | Close

record PositionSnapshot =
  ps_size :: real
  ps_entryPriceUsd :: "real option"
  ps_liquidationPriceUsd :: "real option"
  ps_leverage :: "real option"

definition sideFromSize :: "real \<Rightarrow> PositionSide" where
  "sideFromSize sz = (if sz > 0 then Long else if sz < 0 then Short else Flat)"

subsection \<open>Events of the log\<close>

text \<open>The two variants of \<open>ChangeEvent\<close> without \<open>seq\<close>; \<open>symbol\<close> is always \<open>'BTC'\<close>.\<close>

record PositionFields =
  pe_at :: string
  pe_address :: Address
  pe_size :: real
  pe_side :: PositionSide
  pe_entryPriceUsd :: "real option"
  pe_liquidationPriceUsd :: "real option"
  pe_leverage :: "real option"
  pe_pnlUsd :: "real option"

record TradeFields =
  te_at :: string
  te_address :: Address
  te_side :: TradeSide
  te_direction :: PositionSide
  te_effect :: Effect
  te_priceUsd :: real
  te_size :: real
  te_realizedPnlUsd :: "real option"
  te_startPosition :: real
  te_fee :: "jsnum option"
  te_feeToken :: "string option"
  te_hash :: "string option"
  te_action :: string
  te_dbId :: "int option"

datatype EventFields = PositionEvent PositionFields | TradeEvent TradeFields

subsection \<open>Calls to the persistence module\<close>

record CurrentPositionRow =
  cp_address :: Address
  cp_size :: real
  cp_entryPriceUsd :: "real option"
  cp_liquidationPriceUsd :: "real option"
  cp_leverage :: "real option"
  cp_pnlUsd :: "real option"
  cp_updatedAt :: string

record TradePayload =
  tp_at :: string
  tp_address :: Address
  tp_action :: string
  tp_size :: real
  tp_startPosition :: real
  tp_priceUsd :: real
  tp_realizedPnlUsd :: "real option"
  tp_fee :: "jsnum option"
  tp_feeToken :: "string option"
  tp_hash :: "string option"

text \<open>
  The persistence module (persist.ts) is a collaborator; the tracker's state records the
  calls it issues to it, in order.
\<close>

datatype PersistCall =
    InsertEvent "EventFields ChangeEvent"
  | UpsertCurrentPosition CurrentPositionRow
  | InsertTradeIfNew Address TradePayload

subsection \<open>State of the tracker\<close>

text \<open>
  The field \<open>q\<close> of the source is \<open>tq\<close> here, \<open>q\<close> being the name of a queue in the
  statements about the log. A pending promise of \<open>performPrime\<close> is a task number.
  \<open>pulls\<close> lists the addresses for which \<open>infoClearinghouse\<close> has been called, one
  entry per call.
\<close>

record Tracker =
  snapshots :: "Address \<rightharpoonup> PositionSnapshot \<times> string"
  tq :: "EventFields EventQueue"
  primeInflight :: "Address \<rightharpoonup> nat"
  lastPrimeAt :: "Address \<rightharpoonup> int"
  writes :: "PersistCall list"
  pulls :: "Address list"
  nextTask :: nat

subsection \<open>Parsing a clearinghouse state\<close>

text \<open>
  One entry of \<open>assetPositions\<close>. \<open>ap_coin\<close> is \<open>None\<close> when \<open>position.coin\<close> is not a
  string; a numeric field is \<open>None\<close> when it is \<open>null\<close> or \<open>undefined\<close> (so that \<open>??\<close>
  takes the default) and otherwise holds the result of \<open>Number\<close> on it.
\<close>

record AssetPosition =
  ap_coin :: "string option"
  ap_szi :: "jsnum option"
  ap_entryPx :: "jsnum option"
  ap_leverageValue :: "jsnum option"
  ap_liquidationPx :: "jsnum option"

text \<open>
  \<open>String.prototype.toLowerCase\<close> on the ASCII letters; bytes outside \<open>A\<close> to \<open>Z\<close> are
  kept.
\<close>

definition lowerChar :: "char \<Rightarrow> char" where
  "lowerChar c =
     (let n = (of_char c :: nat) in if 65 \<le> n \<and> n \<le> 90 then char_of (n + 32) else c)"

definition toLowerCase :: "string \<Rightarrow> string" where
  "toLowerCase s = map lowerChar s"

text \<open>The test \<open>/^btc$/i\<close>.\<close>

definition isBtc :: "string \<Rightarrow> bool" where
  "isBtc coin = (toLowerCase coin = ''btc'')"

text \<open>The loop that looks for the first BTC entry.\<close>

fun findBtc :: "AssetPosition list \<Rightarrow> AssetPosition option" where
  "findBtc [] = None"
| "findBtc (ap # positions) =
     (if (case ap_coin ap of Some coin \<Rightarrow> isBtc coin | None \<Rightarrow> False)
      then Some ap else findBtc positions)"

text \<open>
  The snapshot built from the entries. \<open>onClearinghouse\<close> and \<open>performPrime\<close> contain
  the same statements for it, written out twice in the source.
\<close>

definition parseSnapshot :: "AssetPosition list \<Rightarrow> PositionSnapshot" where
  "parseSnapshot positions =
     (let btc = findBtc positions;
          field = (\<lambda>get dflt. case btc of None \<Rightarrow> dflt
                     | Some ap \<Rightarrow> (case get ap of None \<Rightarrow> dflt | Some n \<Rightarrow> n));
          szi = field ap_szi (Finite 0);
          entry = field ap_entryPx NonFinite;
          levValue = field ap_leverageValue NonFinite;
          liq = field ap_liquidationPx NonFinite
      in \<lparr>ps_size = (case szi of Finite x \<Rightarrow> x | NonFinite \<Rightarrow> 0),
          ps_entryPriceUsd = (case entry of Finite x \<Rightarrow> Some x | NonFinite \<Rightarrow> None),
          ps_liquidationPriceUsd = (case liq of Finite x \<Rightarrow> Some x | NonFinite \<Rightarrow> None),
          ps_leverage = (case levValue of Finite x \<Rightarrow> Some x | NonFinite \<Rightarrow> None)\<rparr>)"

subsection \<open>Recording a snapshot\<close>

definition unrealizedPnl :: "PositionSnapshot \<Rightarrow> real option \<Rightarrow> real option" where
  "unrealizedPnl snapshot mark =
     (case (ps_entryPriceUsd snapshot, mark) of
        (Some entry, Some m) \<Rightarrow> Some (ps_size snapshot * (m - entry))
      | _ \<Rightarrow> None)"

text \<open>
  The statements that \<open>onClearinghouse\<close> runs when the snapshot has changed, and that
  \<open>performPrime\<close> runs always: store the snapshot with the time \<open>updatedAt\<close>, push a
  position event, and call \<open>insertEvent\<close> and \<open>upsertCurrentPosition\<close>. \<open>mark\<close> is
  \<open>getCurrentBtcPrice().price ?? null\<close>.
\<close>

definition recordSnapshot ::
  "Address \<Rightarrow> PositionSnapshot \<Rightarrow> string \<Rightarrow> real option \<Rightarrow> Tracker \<Rightarrow> Tracker" where
  "recordSnapshot addr snapshot updatedAt mark st =
     (let pnl = unrealizedPnl snapshot mark;
          (evt, q') = push (PositionEvent
              \<lparr>pe_at = updatedAt, pe_address = addr, pe_size = ps_size snapshot,
               pe_side = sideFromSize (ps_size snapshot),
               pe_entryPriceUsd = ps_entryPriceUsd snapshot,
               pe_liquidationPriceUsd = ps_liquidationPriceUsd snapshot,
               pe_leverage = ps_leverage snapshot, pe_pnlUsd = pnl\<rparr>) (tq st)
      in st\<lparr>snapshots := (snapshots st)(addr \<mapsto> (snapshot, updatedAt)),
            tq := q',
            writes := writes st @
              [InsertEvent evt,
               UpsertCurrentPosition
                 \<lparr>cp_address = addr, cp_size = ps_size snapshot,
                  cp_entryPriceUsd = ps_entryPriceUsd snapshot,
                  cp_liquidationPriceUsd = ps_liquidationPriceUsd snapshot,
                  cp_leverage = ps_leverage snapshot, cp_pnlUsd = pnl,
                  cp_updatedAt = updatedAt\<rparr>]\<rparr>)"

subsection \<open>The live position path\<close>

definition snapshotChanged :: "PositionSnapshot option \<Rightarrow> PositionSnapshot \<Rightarrow> bool" where
  "snapshotChanged prev snapshot =
     (case prev of
        None \<Rightarrow> True
      | Some p \<Rightarrow>
          ps_size p \<noteq> ps_size snapshot
          \<or> ps_entryPriceUsd p \<noteq> ps_entryPriceUsd snapshot
          \<or> ps_liquidationPriceUsd p \<noteq> ps_liquidationPriceUsd snapshot
          \<or> ps_leverage p \<noteq> ps_leverage snapshot)"

text \<open>
  \<open>onClearinghouse(addr, evt)\<close> for a notification whose \<open>assetPositions\<close> is the list
  \<open>positions\<close>, at the time \<open>now\<close> (\<open>new Date().toISOString()\<close>).
\<close>

definition onClearinghouse ::
  "Address \<Rightarrow> AssetPosition list \<Rightarrow> string \<Rightarrow> real option \<Rightarrow> Tracker \<Rightarrow> Tracker" where
  "onClearinghouse addr positions now mark st =
     (let snapshot = parseSnapshot positions;
          prev = map_option fst (snapshots st addr);
          changed = snapshotChanged prev snapshot
      in if changed then recordSnapshot addr snapshot now mark st else st)"

subsection \<open>The priming path\<close>

text \<open>
  \<open>performPrime(addr)\<close> from the point where the awaited \<open>infoClearinghouse\<close> call
  settles: \<open>pulled\<close> is \<open>None\<close> when the call failed (the \<open>catch\<close> ignores the error) and
  otherwise the \<open>assetPositions\<close> of the answer.
\<close>

definition performPrime ::
  "Address \<Rightarrow> AssetPosition list option \<Rightarrow> string \<Rightarrow> real option \<Rightarrow> Tracker \<Rightarrow> Tracker" where
  "performPrime addr pulled now mark st =
     (case pulled of
        None \<Rightarrow> st
      | Some positions \<Rightarrow> recordSnapshot addr (parseSnapshot positions) now mark st)"

record PrimeOpts =
  po_force :: "bool option"
  po_minIntervalMs :: "int option"

text \<open>
  What a caller of \<open>primeFromHttp\<close> gets: a promise that settles when the task settles,
  or a promise that is resolved already.
\<close>

datatype PrimeOutcome = Pending nat | Resolved

text \<open>
  \<open>primeFromHttp(addr, opts)\<close> at the clock reading \<open>nowMs\<close> (\<open>Date.now()\<close>). The body
  has no \<open>await\<close>, so it runs as one step. Starting a task runs \<open>performPrime\<close> up to its
  \<open>await\<close>, which issues the pull, and registers the task as in flight.
\<close>

definition primeFromHttp ::
  "Address \<Rightarrow> PrimeOpts option \<Rightarrow> int \<Rightarrow> Tracker \<Rightarrow> PrimeOutcome \<times> Tracker" where
  "primeFromHttp addr opts nowMs st =
     (let force = (case opts of None \<Rightarrow> True
                   | Some os \<Rightarrow> (case po_force os of None \<Rightarrow> True | Some b \<Rightarrow> b));
          minIntervalMs = (case opts of None \<Rightarrow> 0
                   | Some os \<Rightarrow> (case po_minIntervalMs os of None \<Rightarrow> 0 | Some m \<Rightarrow> m))
      in case primeInflight st addr of
           Some inflight \<Rightarrow> (Pending inflight, st)
         | None \<Rightarrow>
             if \<not> force \<and> minIntervalMs > 0
                \<and> nowMs - (case lastPrimeAt st addr of None \<Rightarrow> 0 | Some l \<Rightarrow> l) < minIntervalMs
             then (Resolved, st)
             else (let task = nextTask st
                   in (Pending task,
                       st\<lparr>pulls := pulls st @ [addr],
                          primeInflight := (primeInflight st)(addr \<mapsto> task),
                          nextTask := Suc task\<rparr>)))"

text \<open>
  The task settles: the rest of \<open>performPrime\<close> runs with the pull's result, then the
  \<open>finally\<close> callback records the time and removes the task from the in-flight map.
\<close>

definition settlePrime ::
  "Address \<Rightarrow> AssetPosition list option \<Rightarrow> string \<Rightarrow> real option \<Rightarrow> int \<Rightarrow> Tracker \<Rightarrow> Tracker" where
  "settlePrime addr pulled now mark nowMs st =
     (let st' = performPrime addr pulled now mark st
      in st'\<lparr>lastPrimeAt := (lastPrimeAt st')(addr \<mapsto> nowMs),
             primeInflight := (primeInflight st')(addr := None)\<rparr>)"

subsection \<open>The live fill path\<close>

text \<open>
  One entry of \<open>evt.fills\<close>: \<open>f_coin\<close> is \<open>String(f?.coin ?? '')\<close>, the numeric fields
  hold the result of \<open>Number\<close> (with \<open>NaN\<close> for a missing field), \<open>f_at\<close> is the ISO time
  computed from \<open>f.time\<close> or the clock, and \<open>f_dbId\<close> is the identifier that the awaited
  \<open>insertTradeIfNew\<close> call reports for this fill.
\<close>

record Fill =
  f_coin :: string
  f_px :: jsnum
  f_sz :: jsnum
  f_side :: string
  f_startPosition :: jsnum
  f_closedPnl :: jsnum
  f_hash :: "string option"
  f_fee :: "jsnum option"
  f_feeToken :: "string option"
  f_at :: string
  f_dbId :: "int option"

text \<open>
  The body of the loop over the fills: \<open>None\<close> where the source says \<open>continue\<close>,
  otherwise the payload handed to \<open>insertTradeIfNew\<close> and the trade event that is pushed.
\<close>

definition fillToTrade :: "Address \<Rightarrow> Fill \<Rightarrow> (TradePayload \<times> TradeFields) option" where
  "fillToTrade addr f =
     (if \<not> isBtc (f_coin f) then None
      else case (f_px f, f_sz f, f_startPosition f) of
        (Finite px, Finite sz, Finite startPosition) \<Rightarrow>
          (let side = (if f_side f = ''B'' then Buy else Sell);
               delta = (if side = Buy then sz else - sz);
               newPos = startPosition + delta;
               effect = (if \<bar>newPos\<bar> > \<bar>startPosition\<bar> then Open
                         else (if newPos = 0 then Close else Close));
               direction = (if sideFromSize newPos = Flat
                            then (if delta > 0 then Long else (if delta < 0 then Short else Flat))
                            else sideFromSize newPos);
               realizedPnl = f_closedPnl f;
               actionLabel =
                 (if startPosition = 0 then (if delta > 0 then ''Open Long'' else ''Open Short'')
                  else if startPosition > 0 then
                    (if delta > 0 then ''Increase Long''
                     else (if newPos = 0 then ''Close Long'' else ''Decrease Long''))
                  else if startPosition < 0 then
                    (if delta < 0 then ''Increase Short''
                     else (if newPos = 0 then ''Close Short'' else ''Decrease Short''))
                  else '''')
           in Some
             (\<lparr>tp_at = f_at f, tp_address = addr, tp_action = actionLabel,
               tp_size = \<bar>sz\<bar>, tp_startPosition = startPosition, tp_priceUsd = px,
               tp_realizedPnlUsd =
                 (case realizedPnl of Finite x \<Rightarrow> Some x | NonFinite \<Rightarrow> None),
               tp_fee = f_fee f, tp_feeToken = f_feeToken f, tp_hash = f_hash f\<rparr>,
              \<lparr>te_at = f_at f, te_address = addr, te_side = side,
               te_direction = direction, te_effect = effect, te_priceUsd = px,
               te_size = \<bar>sz\<bar>,
               te_realizedPnlUsd =
                 (case realizedPnl of Finite x \<Rightarrow> Some x | NonFinite \<Rightarrow> None),
               te_startPosition = startPosition, te_fee = f_fee f,
               te_feeToken = f_feeToken f, te_hash = f_hash f, te_action = actionLabel,
               te_dbId = f_dbId f\<rparr>))
      | _ \<Rightarrow> None)"

text \<open>The loop: each fill that is not skipped is persisted and pushed.\<close>

fun processFills :: "Address \<Rightarrow> Fill list \<Rightarrow> Tracker \<Rightarrow> bool \<times> Tracker" where
  "processFills addr [] st = (False, st)"
| "processFills addr (f # fills) st =
     (case fillToTrade addr f of
        None \<Rightarrow> processFills addr fills st
      | Some (persistencePayload, trade) \<Rightarrow>
          (let (evt, q') = push (TradeEvent trade) (tq st);
               st' = st\<lparr>tq := q', writes := writes st @ [InsertTradeIfNew addr persistencePayload]\<rparr>
           in (True, snd (processFills addr fills st'))))"

text \<open>
  \<open>onUserEvents(addr, evt)\<close> for an event with the array \<open>fills\<close>; when a fill was pushed,
  a priming call follows that is not forced and at most every two seconds.
\<close>

definition onUserEvents :: "Address \<Rightarrow> Fill list \<Rightarrow> int \<Rightarrow> Tracker \<Rightarrow> Tracker" where
  "onUserEvents addr fills nowMs st =
     (let (touched, st') = processFills addr fills st
      in if touched
         then snd (primeFromHttp addr
                (Some \<lparr>po_force = Some False, po_minIntervalMs = Some 2000\<rparr>) nowMs st')
         else st')"

section \<open>Merging pages of trades (queue.ts, tradeKey and mergeTrades)\<close>

text \<open>
  The \<open>id\<close> of a row: a number, or \<open>null\<close> or \<open>undefined\<close>, which \<open>tradeKey\<close> tests
  for on the partial row it takes. In a subtraction \<open>null\<close> counts as 0 and
  \<open>undefined\<close> gives \<open>NaN\<close>, here \<open>None\<close>.
\<close>

datatype RowId = IdNumber int | IdNull | IdUndefined

definition idNumber :: "RowId \<Rightarrow> int option" where
  "idNumber i = (case i of IdNumber n \<Rightarrow> Some n | IdNull \<Rightarrow> Some 0 | IdUndefined \<Rightarrow> None)"

text \<open>
  A row of the paginated trade view; \<open>tr_hash\<close> is the field \<open>hash\<close> that some feeds add
  to a row.
\<close>

record TradeRow =
  tr_id :: RowId
  tr_time :: string
  tr_address :: string
  tr_action :: string
  tr_size :: real
  tr_startPosition :: "real option"
  tr_price :: real
  tr_closedPnl :: "real option"
  tr_tx :: "string option"
  tr_hash :: "string option"

text \<open>A string field is truthy when it is present and not empty.\<close>

definition truthy :: "string option \<Rightarrow> bool" where
  "truthy s = (case s of None \<Rightarrow> False | Some v \<Rightarrow> v \<noteq> [])"

text \<open>
  \<open>tradeKey\<close>. The text of a number inside a template literal is left to the parameter
  \<open>numStr\<close>.
\<close>

definition tradeKey :: "(real \<Rightarrow> string) \<Rightarrow> TradeRow \<Rightarrow> string" where
  "tradeKey numStr t =
     (if truthy (tr_tx t) then ''tx:'' @ toLowerCase (case tr_tx t of Some v \<Rightarrow> v | None \<Rightarrow> [])
      else if truthy (tr_hash t)
        then ''tx:'' @ toLowerCase (case tr_hash t of Some v \<Rightarrow> v | None \<Rightarrow> [])
      else case tr_id t of
          IdNumber i \<Rightarrow> ''id:'' @ numStr (of_int i)
        | _ \<Rightarrow>
            ''time:'' @ tr_time t @ ''|addr:'' @ tr_address t @ ''|size:'' @ numStr (tr_size t)
              @ ''|price:'' @ numStr (tr_price t))"

text \<open>
  The loop over \<open>incoming\<close>: a row is added when its key has not been seen, and its key
  is then seen.
\<close>

fun collectAdditions :: "('a \<Rightarrow> string) \<Rightarrow> string set \<Rightarrow> 'a list \<Rightarrow> 'a list" where
  "collectAdditions key seen [] = []"
| "collectAdditions key seen (t # incoming) =
     (if key t \<in> seen then collectAdditions key seen incoming
      else t # collectAdditions key (insert (key t) seen) incoming)"

text \<open>
  The comparison function handed to \<open>sort\<close>. \<open>dateMs\<close> is
  \<open>new Date(time).getTime()\<close>, \<open>None\<close> for a time that does not parse (\<open>NaN\<close>). A
  result \<open>NaN\<close> of the comparison counts as \<open>0\<close> for \<open>sort\<close>, and is \<open>0\<close> here.
\<close>

definition compareTrades :: "(string \<Rightarrow> int option) \<Rightarrow> TradeRow \<Rightarrow> TradeRow \<Rightarrow> int" where
  "compareTrades dateMs a b =
     (case (dateMs (tr_time a), dateMs (tr_time b)) of
        (Some ta, Some tb) \<Rightarrow>
          if ta \<noteq> tb then tb - ta
          else (case (idNumber (tr_id b), idNumber (tr_id a)) of
                  (Some ib, Some ia) \<Rightarrow> ib - ia
                | _ \<Rightarrow> 0)
      | _ \<Rightarrow> 0)"

text \<open>
  \<open>Array.prototype.sort\<close> with a comparison function: a stable sort, here by insertion.
  For a comparison function that is a consistent ordering of the elements, the result of
  a stable sort does not depend on the algorithm; for an inconsistent one the order that
  JavaScript produces is implementation-defined and this model fixes one.
\<close>

fun insertSorted :: "('a \<Rightarrow> 'a \<Rightarrow> int) \<Rightarrow> 'a \<Rightarrow> 'a list \<Rightarrow> 'a list" where
  "insertSorted cmp x [] = [x]"
| "insertSorted cmp x (y # ys) =
     (if cmp x y \<le> 0 then x # y # ys else y # insertSorted cmp x ys)"

fun sortWith :: "('a \<Rightarrow> 'a \<Rightarrow> int) \<Rightarrow> 'a list \<Rightarrow> 'a list" where
  "sortWith cmp [] = []"
| "sortWith cmp (x # xs) = insertSorted cmp x (sortWith cmp xs)"

definition mergeTrades ::
  "(real \<Rightarrow> string) \<Rightarrow> (string \<Rightarrow> int option) \<Rightarrow> TradeRow list \<Rightarrow> TradeRow list \<Rightarrow> TradeRow list" where
  "mergeTrades numStr dateMs existing incoming =
     (let seen = set (map (tradeKey numStr) existing);
          additions = collectAdditions (tradeKey numStr) seen incoming
      in if additions = [] then existing
         else sortWith (compareTrades dateMs) (existing @ additions))"

text \<open>
  The words of the specification: a list is sorted descending by (time, id) when every
  row is followed only by rows of an earlier time, or of the same time and an \<open>id\<close> not
  greater. The time is the parsed one and the \<open>id\<close> the number that the comparison
  function subtracts; a row is comparable when it has both, that is when its time parses
  and its \<open>id\<close> is not \<open>undefined\<close>. A list is chronological, newest first, when the
  parsed times do not increase along it.
\<close>

definition comparable :: "(string \<Rightarrow> int option) \<Rightarrow> TradeRow \<Rightarrow> bool" where
  "comparable dateMs t = (dateMs (tr_time t) \<noteq> None \<and> idNumber (tr_id t) \<noteq> None)"

definition notOlder :: "(string \<Rightarrow> int option) \<Rightarrow> TradeRow \<Rightarrow> TradeRow \<Rightarrow> bool" where
  "notOlder dateMs a b =
     (case (dateMs (tr_time a), dateMs (tr_time b), idNumber (tr_id a), idNumber (tr_id b)) of
        (Some ta, Some tb, Some ia, Some ib) \<Rightarrow> tb < ta \<or> (ta = tb \<and> ib \<le> ia)
      | _ \<Rightarrow> False)"

definition sortedDescByTimeId :: "(string \<Rightarrow> int option) \<Rightarrow> TradeRow list \<Rightarrow> bool" where
  "sortedDescByTimeId dateMs rows = sorted_wrt (notOlder dateMs) rows"

definition chronological :: "(string \<Rightarrow> int option) \<Rightarrow> TradeRow list \<Rightarrow> bool" where
  "chronological dateMs rows =
     sorted_wrt (\<lambda>a b. case (dateMs (tr_time a), dateMs (tr_time b)) of
                         (Some ta, Some tb) \<Rightarrow> tb \<le> ta
                       | _ \<Rightarrow> False) rows"

subsection \<open>Sample inputs\<close>

text \<open>
  A stored snapshot, a notification that reproduces it, a tracker that holds the snapshot
  for one address, and a fill. The theorems below are instantiated at them.
\<close>

definition demoSnapshot :: PositionSnapshot where
  "demoSnapshot = \<lparr>ps_size = 2, ps_entryPriceUsd = Some 100,
     ps_liquidationPriceUsd = None, ps_leverage = Some 3\<rparr>"

definition demoPositions :: "AssetPosition list" where
  "demoPositions =
     [\<lparr>ap_coin = Some ''ETH'', ap_szi = Some (Finite 7), ap_entryPx = Some (Finite 9),
       ap_leverageValue = None, ap_liquidationPx = None\<rparr>,
      \<lparr>ap_coin = Some ''BTC'', ap_szi = Some (Finite 2), ap_entryPx = Some (Finite 100),
       ap_leverageValue = Some (Finite 3), ap_liquidationPx = Some NonFinite\<rparr>]"

definition demoTracker :: Tracker where
  "demoTracker = \<lparr>snapshots = [''0xabc'' \<mapsto> (demoSnapshot, ''2024-01-01T00:00:00.000Z'')],
     tq = newEventQueue 100, primeInflight = Map.empty, lastPrimeAt = Map.empty,
     writes = [], pulls = [], nextTask = 0\<rparr>"

definition demoFill :: "string \<Rightarrow> real \<Rightarrow> real \<Rightarrow> Fill" where
  "demoFill side sz startPosition =
     \<lparr>f_coin = ''BTC'', f_px = Finite 50000, f_sz = Finite sz, f_side = side,
      f_startPosition = Finite startPosition, f_closedPnl = NonFinite, f_hash = None,
      f_fee = None, f_feeToken = None, f_at = ''2024-01-01T00:00:00.000Z'', f_dbId = None\<rparr>"

text \<open>
  Two pages of trades: the first incoming row repeats the first existing row under
  another \<open>id\<close> and with its transaction hash in another case, the second is new.
  \<open>demoDateMs\<close> and \<open>demoNumStr\<close> give the time stamps and the number texts of these
  rows.
\<close>

definition demoRow :: "int \<Rightarrow> string \<Rightarrow> string option \<Rightarrow> TradeRow" where
  "demoRow i time tx =
     \<lparr>tr_id = IdNumber i, tr_time = time, tr_address = ''0xabc'', tr_action = ''Open Long'',
      tr_size = 1, tr_startPosition = Some 0, tr_price = 100, tr_closedPnl = None,
      tr_tx = tx, tr_hash = None\<rparr>"

definition demoDateMs :: "string \<Rightarrow> int option" where
  "demoDateMs = map_of
     [(''2024-01-01T00:00:02.000Z'', 1704067202000),
      (''2024-01-01T00:00:03.000Z'', 1704067203000),
      (''2024-01-01T00:00:04.000Z'', 1704067204000)]"

definition demoNumStr :: "real \<Rightarrow> string" where
  "demoNumStr x =
     (if x = 1 then ''1'' else if x = 2 then ''2'' else if x = 3 then ''3''
      else if x = 4 then ''4'' else if x = 100 then ''100'' else if x = 999 then ''999''
      else ''?'')"

definition demoExisting :: "TradeRow list" where
  "demoExisting =
     [demoRow 3 ''2024-01-01T00:00:03.000Z'' (Some ''0xABC''),
      demoRow 2 ''2024-01-01T00:00:02.000Z'' None]"

definition demoIncoming :: "TradeRow list" where
  "demoIncoming =
     [demoRow 999 ''2024-01-01T00:00:03.000Z'' (Some ''0xabc''),
      demoRow 4 ''2024-01-01T00:00:04.000Z'' None]"

text \<open>
  Two rows of the same time whose keys differ, the smaller \<open>id\<close> first: a list without
  duplicates in chronological order.
\<close>

definition tiedExisting :: "TradeRow list" where
  "tiedExisting =
     [demoRow 1 ''2024-01-01T00:00:03.000Z'' None,
      demoRow 2 ''2024-01-01T00:00:03.000Z'' None]"

section \<open>Properties of the log\<close>

lemma push_fst: "fst (push evt q) = \<lparr>seq = nextSeq q, body = evt\<rparr>"
  by (simp add: push_def Let_def)

lemma push_nextSeq: "nextSeq (snd (push evt q)) = nextSeq q + 1"
  by (simp add: push_def Let_def)

lemma push_capacity: "capacity (snd (push evt q)) = capacity q"
  by (simp add: push_def Let_def)

lemma push_buffer:
  "buffer (snd (push evt q)) =
     drop (nat (int (length (buffer q)) + 1 - capacity q)) (buffer q @ [fst (push evt q)])"
proof -
  have "int (length (buffer q)) + 1 - capacity q = 1 + int (length (buffer q)) - capacity q"
    by simp
  then have e: "nat (int (length (buffer q)) + 1 - capacity q) =
      nat (1 + int (length (buffer q)) - capacity q)"
    by simp
  show ?thesis
    unfolding e by (simp add: push_def Let_def splice0_def del: drop_append)
qed

lemma pushAll_Cons_fst:
  "fst (pushAll (evt # evts) q) = fst (push evt q) # fst (pushAll evts (snd (push evt q)))"
  by (simp split: prod.splits)

lemma pushAll_Cons_snd:
  "snd (pushAll (evt # evts) q) = snd (pushAll evts (snd (push evt q)))"
  by (simp split: prod.splits)

lemma pushAll_nextSeq: "nextSeq (snd (pushAll evts q)) = nextSeq q + int (length evts)"
  by (induction evts arbitrary: q) (simp_all add: pushAll_Cons_snd push_nextSeq del: pushAll.simps(2))

lemma pushAll_capacity: "capacity (snd (pushAll evts q)) = capacity q"
  by (induction evts arbitrary: q) (simp_all add: pushAll_Cons_snd push_capacity del: pushAll.simps(2))

lemma pushAll_length: "length (fst (pushAll evts q)) = length evts"
  by (induction evts arbitrary: q) (simp_all add: pushAll_Cons_fst del: pushAll.simps(2))

lemma pushAll_body: "map body (fst (pushAll evts q)) = evts"
  by (induction evts arbitrary: q) (simp_all add: pushAll_Cons_fst push_fst del: pushAll.simps(2))

lemma pushAll_seq:
  "map seq (fst (pushAll evts q)) = map (\<lambda>i. nextSeq q + int i) [0..<length evts]"
proof (induction evts arbitrary: q)
  case Nil
  show ?case by simp
next
  case (Cons evt evts)
  let ?q' = "snd (push evt q)"
  have "map seq (fst (pushAll evts ?q')) = map (\<lambda>i. nextSeq q + int (Suc i)) [0..<length evts]"
    using Cons.IH [of ?q'] by (simp add: push_nextSeq add.assoc)
  also have "\<dots> = map (\<lambda>i. nextSeq q + int i) (map Suc [0..<length evts])"
    by simp
  finally have r: "map seq (fst (pushAll evts ?q')) =
      map (\<lambda>i. nextSeq q + int i) [Suc 0..<Suc (length evts)]"
    by (simp only: map_Suc_upt)
  have "[0..<length (evt # evts)] = 0 # [Suc 0..<Suc (length evts)]"
    by (simp add: upt_rec)
  then show ?case using r by (simp add: pushAll_Cons_fst push_fst del: pushAll.simps(2))
qed

lemma drop_append_le: "k \<le> length xs \<Longrightarrow> drop k (xs @ ys) = drop k xs @ ys"
  by simp

lemma pushAll_buffer:
  "int (length (buffer q)) \<le> capacity q \<Longrightarrow>
   buffer (snd (pushAll evts q)) =
     drop (nat (int (length (buffer q) + length evts) - capacity q))
          (buffer q @ fst (pushAll evts q))"
proof (induction evts arbitrary: q)
  case Nil
  then show ?case by simp
next
  case (Cons evt evts)
  define w where "w = fst (push evt q)"
  define q' where "q' = snd (push evt q)"
  define F where "F = fst (pushAll evts q')"
  define B where "B = buffer q @ [w]"
  define k where "k = nat (int (length (buffer q)) + 1 - capacity q)"
  define m where "m = nat (int (length (buffer q') + length evts) - capacity q')"
  have b: "buffer q' = drop k B"
    unfolding q'_def k_def B_def w_def by (rule push_buffer)
  have c: "capacity q' = capacity q" unfolding q'_def by (rule push_capacity)
  have lB: "length B = length (buffer q) + 1" by (simp add: B_def)
  have k: "k \<le> length B" using Cons.prems lB by (simp add: k_def)
  have lq': "length (buffer q') = length B - k" using b by simp
  have len: "int (length (buffer q')) \<le> capacity q'"
    using Cons.prems lq' lB c k_def by linarith
  have ih: "buffer (snd (pushAll evts q')) = drop m (buffer q' @ F)"
    unfolding m_def F_def using Cons.IH [OF len] .
  have "drop m (buffer q' @ F) = drop m (drop k (B @ F))"
    using drop_append_le [OF k] b by simp
  also have "\<dots> = drop (m + k) (B @ F)"
    by (simp only: drop_drop)
  also have "m + k = nat (int (length (buffer q) + length (evt # evts)) - capacity q)"
    using lq' lB c k Cons.prems unfolding m_def k_def by simp linarith
  finally have "buffer (snd (pushAll evts q')) =
      drop (nat (int (length (buffer q) + length (evt # evts)) - capacity q)) (B @ F)"
    using ih by simp
  then show ?case
    unfolding B_def F_def q'_def w_def
    by (simp add: pushAll_Cons_fst pushAll_Cons_snd del: pushAll.simps(2) drop_append)
qed

lemma upt_shift_upto: "map (\<lambda>i. 1 + int i) [0..<n] = [1..int n]"
proof (induction n)
  case 0
  show ?case by simp
next
  case (Suc n)
  have "[1..int (Suc n)] = [1..int n] @ [int n + 1]"
    by (simp add: upto_rec2)
  then show ?case using Suc by simp
qed

lemma strictly_increasing_offsets:
  "sorted_wrt (<) (map (\<lambda>i. (k::int) + int i) [0..<n])"
proof -
  have "sorted_wrt (\<lambda>i j. k + int i < k + int j) [0..<n]"
    by (rule sorted_wrt_mono_rel [OF _ sorted_wrt_upt]) simp
  then show ?thesis by (simp add: sorted_wrt_map)
qed

subsection \<open>Sequence numbers\<close>

text \<open>
  Claim C1. A run of \<open>push\<close> calls from any state of the queue returns the sequence
  numbers \<open>nextSeq\<close>, \<open>nextSeq + 1\<close>, \<open>nextSeq + 2\<close>, ... in this order: each is
  exactly one greater than the one before, so the returned numbers are strictly increasing and
  none is returned twice. Nothing in the statement depends on the capacity, so eviction
  does not disturb the numbering. A new queue numbers its pushes \<open>1, 2, ..., n\<close>; after
  \<open>reset\<close> the buffer is empty, the next push gets number 1 and a run of pushes is
  numbered \<open>1, 2, ..., n\<close> again.
\<close>

theorem push_sequence_numbers:
  "map seq (fst (pushAll evts q)) = map (\<lambda>i. nextSeq q + int i) [0..<length evts]
   \<and> sorted_wrt (<) (map seq (fst (pushAll evts q)))
   \<and> distinct (map seq (fst (pushAll evts q)))
   \<and> nextSeq (snd (pushAll evts q)) = nextSeq q + int (length evts)
   \<and> map seq (fst (pushAll evts (newEventQueue c))) = [1..int (length evts)]
   \<and> buffer (reset q) = []
   \<and> seq (fst (push evt (reset q))) = 1
   \<and> map seq (fst (pushAll evts (reset q))) = [1..int (length evts)]"
proof -
  have dense: "map seq (fst (pushAll evts q')) = map (\<lambda>i. nextSeq q' + int i) [0..<length evts]"
    for q' :: "'a EventQueue"
    by (rule pushAll_seq)
  have incr: "sorted_wrt (<) (map seq (fst (pushAll evts q)))"
    unfolding dense by (rule strictly_increasing_offsets)
  have dist: "distinct (map seq (fst (pushAll evts q)))"
    using incr by (simp add: strict_sorted_iff)
  have fresh: "map seq (fst (pushAll evts (newEventQueue c))) = [1..int (length evts)]"
    unfolding dense by (simp add: newEventQueue_def upt_shift_upto)
  have after_reset: "map seq (fst (pushAll evts (reset q))) = [1..int (length evts)]"
    unfolding dense by (simp add: reset_def upt_shift_upto)
  have one: "seq (fst (push evt (reset q))) = 1"
    by (simp add: push_fst reset_def)
  show ?thesis
    using dense [of q] incr dist fresh after_reset one
    by (simp add: pushAll_nextSeq reset_def)
qed

subsection \<open>Reading the buffer\<close>

lemma push_length:
  "length (buffer (snd (push evt q))) = min (length (buffer q) + 1) (nat (capacity q))"
  unfolding push_buffer by simp

lemma findIndex_None: "findIndex p xs = None \<longleftrightarrow> (\<forall>x\<in>set xs. \<not> p x)"
  by (induction xs) auto

lemma findIndex_Some:
  "findIndex p xs = Some i \<Longrightarrow> i < length xs \<and> drop i xs = dropWhile (\<lambda>x. \<not> p x) xs"
  by (induction xs arbitrary: i) (auto split: if_splits)

lemma clamp_limit:
  "mathMax (Num 1) (mathMin (Num 1000) limit) =
     (case limit of
        Num r \<Rightarrow> Num (max 1 (min 1000 r))
      | NaN \<Rightarrow> NaN
      | PosInfinity \<Rightarrow> Num 1000
      | NegInfinity \<Rightarrow> Num 1)"
  by (cases limit) simp_all

lemma slice_count:
  assumes "1 \<le> c" and "i \<le> length xs"
  shows "slice i (Num (real i + c)) xs = take (nat \<lfloor>c\<rfloor>) (drop i xs)"
proof -
  have c0: "0 \<le> \<lfloor>c\<rfloor>" using assms(1) by simp
  have fl: "\<lfloor>real i + c\<rfloor> = int i + \<lfloor>c\<rfloor>"
    by (metis add.commute floor_add_int of_int_of_nat_eq)
  then have e: "nat \<lfloor>real i + c\<rfloor> = i + nat \<lfloor>c\<rfloor>"
    using c0 by (simp add: nat_add_distrib)
  have pos: "\<not> real i + c < 0" using assms(1) by linarith
  have nn: "\<not> \<lfloor>real i + c\<rfloor> < 0" using c0 fl by linarith
  have "slice i (Num (real i + c)) xs
      = take (min (nat \<lfloor>real i + c\<rfloor>) (length xs) - i) (drop i xs)"
    unfolding slice_def Let_def JsNumber.case if_not_P [OF pos] if_not_P [OF nn] ..
  then have "slice i (Num (real i + c)) xs
      = take (min (i + nat \<lfloor>c\<rfloor>) (length xs) - i) (drop i xs)"
    unfolding e .
  also have "min (i + nat \<lfloor>c\<rfloor>) (length xs) - i = min (nat \<lfloor>c\<rfloor>) (length (drop i xs))"
    using assms(2) by simp
  also have "take (min (nat \<lfloor>c\<rfloor>) (length (drop i xs))) (drop i xs)
      = take (nat \<lfloor>c\<rfloor>) (drop i xs)"
    by (simp add: min_def)
  finally show ?thesis .
qed

lemma listSince_dropWhile:
  "listSince s limit q =
     (case limit of
        Num r \<Rightarrow> take (nat \<lfloor>max 1 (min 1000 r)\<rfloor>)
                   (dropWhile (\<lambda>e. \<not> s < seq e) (buffer q))
      | NaN \<Rightarrow> []
      | PosInfinity \<Rightarrow> take 1000 (dropWhile (\<lambda>e. \<not> s < seq e) (buffer q))
      | NegInfinity \<Rightarrow> take 1 (dropWhile (\<lambda>e. \<not> s < seq e) (buffer q)))"
proof (cases "findIndex (\<lambda>e. s < seq e) (buffer q)")
  case None
  then have "dropWhile (\<lambda>e. \<not> s < seq e) (buffer q) = []"
    by (simp add: findIndex_None)
  with None show ?thesis by (simp add: listSince_def split: JsNumber.splits)
next
  case (Some i)
  from findIndex_Some [OF Some]
  have i: "i \<le> length (buffer q)"
    and d: "drop i (buffer q) = dropWhile (\<lambda>e. \<not> s < seq e) (buffer q)"
    by simp_all
  have n: "slice i (Num (real i + c)) (buffer q)
      = take (nat \<lfloor>c\<rfloor>) (dropWhile (\<lambda>e. \<not> s < seq e) (buffer q))" if "1 \<le> c" for c
    using slice_count [OF that i] d by simp
  show ?thesis
  proof (cases limit)
    case (Num r)
    have "1 \<le> max 1 (min 1000 r)" by simp
    from n [OF this] Some Num show ?thesis
      by (simp add: listSince_def clamp_limit)
  next
    case NaN
    with Some show ?thesis by (simp add: listSince_def slice_def)
  next
    case PosInfinity
    with Some n [of 1000] show ?thesis by (simp add: listSince_def)
  next
    case NegInfinity
    with Some n [of 1] show ?thesis by (simp add: listSince_def)
  qed
qed

lemma listSince_int:
  "listSince s (Num (of_int l)) q =
     take (nat (max 1 (min 1000 l))) (dropWhile (\<lambda>e. \<not> s < seq e) (buffer q))"
proof -
  have "max 1 (min 1000 (of_int l :: real)) = of_int (max 1 (min 1000 l))"
    by (simp add: of_int_max of_int_min)
  then show ?thesis
    unfolding listSince_dropWhile by simp
qed

lemma dropWhile_sorted_filter:
  "sorted_wrt (<) (map seq xs) \<Longrightarrow>
   dropWhile (\<lambda>e. \<not> s < seq e) xs = filter (\<lambda>e. s < seq e) xs"
proof (induction xs)
  case Nil
  show ?case by simp
next
  case (Cons x xs)
  show ?case
  proof (cases "s < seq x")
    case True
    with Cons.prems have "\<forall>e\<in>set xs. s < seq e" by auto
    then have "filter (\<lambda>e. s < seq e) xs = xs" by simp
    with True show ?thesis by simp
  next
    case False
    with Cons show ?thesis by simp
  qed
qed

lemma reachable_invariant:
  "reachable q \<Longrightarrow>
   sorted_wrt (<) (map seq (buffer q)) \<and> (\<forall>e\<in>set (buffer q). seq e < nextSeq q)"
proof (induction rule: reachable.induct)
  case (created c)
  show ?case by (simp add: newEventQueue_def)
next
  case (pushed q evt)
  let ?w = "fst (push evt q)"
  have s: "sorted_wrt (<) (map seq (buffer q @ [?w]))"
    using pushed.IH by (auto simp: sorted_wrt_append push_fst)
  have b: "\<forall>e\<in>set (buffer q @ [?w]). seq e < nextSeq q + 1"
    using pushed.IH by (auto simp: push_fst)
  define k where "k = nat (int (length (buffer q)) + 1 - capacity q)"
  have "sorted_wrt (<) (drop k (map seq (buffer q @ [?w])))"
    using s by (rule sorted_wrt_drop)
  then have s': "sorted_wrt (<) (map seq (drop k (buffer q @ [?w])))"
    by (simp only: drop_map)
  have b': "\<forall>e\<in>set (drop k (buffer q @ [?w])). seq e < nextSeq q + 1"
    using b by (meson in_set_dropD)
  show ?case
    unfolding push_buffer push_nextSeq k_def [symmetric]
    using s' b' by simp
next
  case (cleared q)
  show ?case by (simp add: reset_def)
qed

subsection \<open>Retention\<close>

lemma upt_from_shift_upto: "map (\<lambda>i. 1 + int i) [k..<n] = [1 + int k..int n]"
proof (induction n)
  case 0
  show ?case by simp
next
  case (Suc n)
  show ?case
  proof (cases "k \<le> n")
    case True
    have "[1 + int k..int (Suc n)] = [1 + int k..int n] @ [int n + 1]"
      using True by (simp add: upto_rec2)
    with True Suc show ?thesis by simp
  next
    case False
    then show ?thesis by simp
  qed
qed

lemma fresh_buffer:
  "buffer (snd (pushAll evts (newEventQueue c))) =
     drop (length evts - nat (max 100 c)) (fst (pushAll evts (newEventQueue c)))"
proof -
  have "int (length (buffer (newEventQueue c :: 'a EventQueue))) \<le> capacity (newEventQueue c :: 'a EventQueue)"
    by (simp add: newEventQueue_def)
  from pushAll_buffer [OF this, of evts]
  have "buffer (snd (pushAll evts (newEventQueue c))) =
      drop (nat (int (length evts) - max 100 c)) (fst (pushAll evts (newEventQueue c)))"
    by (simp add: newEventQueue_def)
  moreover have "nat (int (length evts) - max 100 c) = length evts - nat (max 100 c)"
    by linarith
  ultimately show ?thesis by simp
qed

lemma fresh_buffer_seq:
  "map seq (buffer (snd (pushAll evts (newEventQueue c)))) =
     [1 + int (length evts - nat (max 100 c))..int (length evts)]"
proof -
  have "map seq (fst (pushAll evts (newEventQueue c))) = map (\<lambda>i. 1 + int i) [0..<length evts]"
    by (simp add: pushAll_seq newEventQueue_def)
  then have "map seq (buffer (snd (pushAll evts (newEventQueue c)))) =
      drop (length evts - nat (max 100 c)) (map (\<lambda>i. 1 + int i) [0..<length evts])"
    unfolding fresh_buffer by (metis drop_map)
  also have "\<dots> = map (\<lambda>i. 1 + int i) [length evts - nat (max 100 c)..<length evts]"
    by (simp add: drop_map)
  finally show ?thesis by (simp only: upt_from_shift_upto)
qed

lemma listSince_all_newer:
  assumes "sorted_wrt (<) (map seq (buffer q))" and "\<forall>e\<in>set (buffer q). s < seq e"
    and "int (length (buffer q)) \<le> max 1 (min 1000 l)"
  shows "listSince s (Num (of_int l)) q = buffer q"
proof -
  have "filter (\<lambda>e. s < seq e) (buffer q) = buffer q" using assms(2) by simp
  then show ?thesis
    unfolding listSince_int dropWhile_sorted_filter [OF assms(1)]
    using assms(3) by simp
qed

lemma scenario_seqs:
  "map seq (buffer (snd (pushAll (map f [0..<150]) (newEventQueue 50)))) = [51..150]"
proof -
  have l: "length (map f [0..<150]) = 150" by (simp only: length_map length_upt, simp?)
  have "1 + int (150 - nat (max 100 50)) = 51" by simp
  then show ?thesis
    using fresh_buffer_seq [of "map f [0..<150]" 50] unfolding l by (simp only: of_nat_numeral)
qed

lemma scenario_listSince:
  "listSince 0 (Num 200) (snd (pushAll (map f [0..<150]) (newEventQueue 50))) =
     buffer (snd (pushAll (map f [0..<150]) (newEventQueue 50)))"
proof -
  let ?s = "snd (pushAll (map f [0..<150]) (newEventQueue 50))"
  have srt: "sorted_wrt (<) (map seq (buffer ?s))"
    unfolding scenario_seqs by (rule sorted_wrt_upto)
  have "\<forall>x\<in>set (map seq (buffer ?s)). 0 < x"
    unfolding scenario_seqs by (simp only: set_upto, simp?)
  then have newer: "\<forall>e\<in>set (buffer ?s). 0 < seq e" by simp
  have "length (map seq (buffer ?s)) = 100"
    unfolding scenario_seqs by (simp only: length_upto, simp?)
  then have "int (length (buffer ?s)) \<le> max 1 (min 1000 200)" by simp
  from listSince_all_newer [OF srt newer this] show ?thesis by simp
qed

text \<open>
  Claim C2. After \<open>N\<close> pushes into a new queue configured with capacity \<open>C\<close>, the
  buffer holds exactly \<open>min N (max 100 C)\<close> events: the last ones pushed, with the
  sequence numbers \<open>N - k + 1, ..., N\<close> in order, the older ones having been removed
  from the front. Every single push leaves at most \<open>capacity\<close> events in the buffer.
  With capacity 50 and 150 pushes, \<open>listSince(0, 200)\<close> returns 100 events, numbered 51
  to 150.
\<close>

theorem bounded_retention:
  "length (buffer (snd (pushAll evts (newEventQueue c)))) = min (length evts) (nat (max 100 c))
   \<and> buffer (snd (pushAll evts (newEventQueue c))) =
       drop (length evts - nat (max 100 c)) (fst (pushAll evts (newEventQueue c)))
   \<and> map seq (buffer (snd (pushAll evts (newEventQueue c)))) =
       [1 + int (length evts - nat (max 100 c))..int (length evts)]
   \<and> map body (buffer (snd (pushAll evts (newEventQueue c)))) =
       drop (length evts - nat (max 100 c)) evts
   \<and> length (buffer (snd (push evt q))) = min (length (buffer q) + 1) (nat (capacity q))
   \<and> length (listSince 0 (Num 200) (snd (pushAll (map f [0..<150]) (newEventQueue 50)))) = 100
   \<and> map seq (listSince 0 (Num 200) (snd (pushAll (map f [0..<150]) (newEventQueue 50)))) = [51..150]"
proof -
  let ?q = "snd (pushAll evts (newEventQueue c))"
  have len: "length (buffer ?q) = min (length evts) (nat (max 100 c))"
    unfolding fresh_buffer by (simp add: pushAll_length)
  have bodies: "map body (buffer ?q) = drop (length evts - nat (max 100 c)) evts"
    unfolding fresh_buffer by (metis drop_map pushAll_body)
  let ?s = "snd (pushAll (map f [0..<150]) (newEventQueue 50))"
  have "length (map seq (listSince 0 (Num 200) ?s)) = 100"
    unfolding scenario_listSince scenario_seqs by (simp only: length_upto, simp?)
  then have l100: "length (listSince 0 (Num 200) ?s) = 100" by simp
  have seqs: "map seq (listSince 0 (Num 200) ?s) = [51..150]"
    unfolding scenario_listSince by (rule scenario_seqs)
  show ?thesis
    by (intro conjI len fresh_buffer fresh_buffer_seq bodies push_length l100 seqs)
qed

subsection \<open>Pages of the log\<close>

lemma demoQueue_buffer:
  "buffer demoQueue = [\<lparr>seq = 1, body = CHR ''a''\<rparr>, \<lparr>seq = 2, body = CHR ''b''\<rparr>, \<lparr>seq = 3, body = CHR ''c''\<rparr>]"
  by (simp add: demoQueue_def push_def newEventQueue_def Let_def splice0_def)

lemma demoQueue_reachable: "reachable demoQueue"
  unfolding demoQueue_def by (intro reachable.intros)

text \<open>
  On every reachable queue, whatever the limit, \<open>listSince(s, limit)\<close> returns only
  events whose sequence number is greater than \<open>s\<close>, in buffer order with increasing
  sequence numbers, and never more than 1000: it returns the first \<open>n\<close> of them for some
  \<open>n\<close> up to 1000, where \<open>n\<close> is at least 1 unless the limit is \<open>NaN\<close>, and is
  \<open>max 1 (min 1000 limit)\<close> for an integer limit.
\<close>

lemma listSince_slice:
  assumes "reachable q"
  shows "(\<forall>e\<in>set (listSince s limit q). s < seq e)
    \<and> length (listSince s limit q) \<le> 1000
    \<and> sorted_wrt (<) (map seq (listSince s limit q))
    \<and> (\<exists>n\<le>1000. (limit \<noteq> NaN \<longrightarrow> 1 \<le> n)
          \<and> listSince s limit q = take n (filter (\<lambda>e. s < seq e) (buffer q)))
    \<and> listSince s (Num (of_int l)) q =
          take (nat (max 1 (min 1000 l))) (filter (\<lambda>e. s < seq e) (buffer q))"
proof -
  let ?f = "filter (\<lambda>e. s < seq e) (buffer q)"
  have srt: "sorted_wrt (<) (map seq (buffer q))"
    using reachable_invariant [OF assms] by simp
  have d: "dropWhile (\<lambda>e. \<not> s < seq e) (buffer q) = ?f"
    by (rule dropWhile_sorted_filter [OF srt])
  have int_limit: "listSince s (Num (of_int l)) q = take (nat (max 1 (min 1000 l))) ?f"
    unfolding listSince_int d ..
  have ex: "\<exists>n\<le>1000. (limit \<noteq> NaN \<longrightarrow> 1 \<le> n) \<and> listSince s limit q = take n ?f"
  proof (cases limit)
    case (Num r)
    have "1 \<le> \<lfloor>max 1 (min 1000 r)\<rfloor>" and "\<lfloor>max 1 (min 1000 r)\<rfloor> \<le> 1000"
      by (simp_all add: le_floor_iff floor_le_iff)
    then have "nat \<lfloor>max 1 (min 1000 r)\<rfloor> \<le> 1000" and "1 \<le> nat \<lfloor>max 1 (min 1000 r)\<rfloor>"
      by linarith+
    moreover have "listSince s limit q = take (nat \<lfloor>max 1 (min 1000 r)\<rfloor>) ?f"
      unfolding listSince_dropWhile d Num by simp
    ultimately show ?thesis by blast
  next
    case NaN
    then have "listSince s limit q = take 0 ?f"
      unfolding listSince_dropWhile by simp
    with NaN show ?thesis by blast
  next
    case PosInfinity
    then have "listSince s limit q = take 1000 ?f"
      unfolding listSince_dropWhile d by simp
    then show ?thesis by (intro exI [of _ 1000]) simp
  next
    case NegInfinity
    then have "listSince s limit q = take 1 ?f"
      unfolding listSince_dropWhile d by simp
    then show ?thesis by (intro exI [of _ 1]) simp
  qed
  then obtain n where n: "n \<le> 1000" and eq: "listSince s limit q = take n ?f"
    by blast
  have gt: "\<forall>e\<in>set (listSince s limit q). s < seq e"
    unfolding eq by (auto dest: in_set_takeD)
  have len: "length (listSince s limit q) \<le> 1000"
    unfolding eq using n by simp
  have "sorted_wrt (<) (map seq ?f)"
    using srt by (simp add: sorted_wrt_map sorted_wrt_filter)
  then have inc: "sorted_wrt (<) (map seq (listSince s limit q))"
    unfolding eq by (simp add: take_map [symmetric] sorted_wrt_take)
  show ?thesis using gt len inc ex int_limit by blast
qed

text \<open>
  Claim C9, at the limit \<open>NaN\<close>. \<open>Math.min(1000, NaN)\<close> and \<open>Math.max(1, NaN)\<close> are
  \<open>NaN\<close>, and \<open>slice(startIdx, NaN)\<close> is empty: on every queue the call returns no
  event. On the queue that retains the events 1, 2 and 3, \<open>listSince(0, NaN)\<close> is empty
  although 0 is older than every retained event, where \<open>listSince(0, 200)\<close> returns the
  three of them.
\<close>

theorem listSince_nan_limit:
  "listSince s NaN q = []
   \<and> buffer demoQueue =
       [\<lparr>seq = 1, body = CHR ''a''\<rparr>, \<lparr>seq = 2, body = CHR ''b''\<rparr>, \<lparr>seq = 3, body = CHR ''c''\<rparr>]
   \<and> listSince 0 NaN demoQueue = []
   \<and> listSince 0 (Num 200) demoQueue = buffer demoQueue"
proof -
  have nan: "listSince s' NaN q' = []" for s' and q' :: "'b EventQueue"
    unfolding listSince_dropWhile by simp
  have "listSince 0 (Num (of_int 200)) demoQueue = buffer demoQueue"
    unfolding listSince_int by (simp add: demoQueue_buffer)
  then have "listSince 0 (Num 200) demoQueue = buffer demoQueue" by simp
  then show ?thesis using nan [of s q] nan [of 0 demoQueue] demoQueue_buffer by simp
qed

text \<open>
  Claim C10. A limit of zero or less is raised to one: when some retained event has a
  sequence number greater than \<open>s\<close>, the call returns exactly one event (one of the
  buffer, newer than \<open>s\<close>), not the empty list. This holds for every real limit that is
  zero or less, integer or not, and for \<open>-Infinity\<close>.
\<close>

theorem listSince_limit_floor:
  assumes "limit \<le> 0" and "\<exists>e\<in>set (buffer q). s < seq e"
  shows "\<exists>e. listSince s (Num limit) q = [e] \<and> listSince s NegInfinity q = [e]
    \<and> s < seq e \<and> e \<in> set (buffer q)"
proof -
  let ?d = "dropWhile (\<lambda>e. \<not> s < seq e) (buffer q)"
  have ne: "?d \<noteq> []" using assms(2) by (simp add: dropWhile_eq_Nil_conv)
  then obtain e es where d: "?d = e # es" by (cases ?d) auto
  have "s < seq e" using hd_dropWhile [OF ne] d by simp
  moreover have "e \<in> set (buffer q)"
    using set_dropWhileD [of e "\<lambda>e. \<not> s < seq e" "buffer q"] d by simp
  moreover have "max 1 (min 1000 limit) = 1" using assms(1) by simp
  then have "listSince s (Num limit) q = [e]" unfolding listSince_dropWhile d by simp
  moreover have "listSince s NegInfinity q = [e]" unfolding listSince_dropWhile d by simp
  ultimately show ?thesis by blast
qed

theorem listSince_limit_floor_witness:
  "(0::real) \<le> 0 \<and> (\<exists>e. e \<in> set (buffer demoQueue) \<and> 1 < seq e)
   \<and> length (listSince 1 (Num 0) demoQueue) = 1
   \<and> length (listSince 1 NegInfinity demoQueue) = 1"
proof -
  have a: "(0::real) \<le> 0" by simp
  have b: "\<exists>e\<in>set (buffer demoQueue). 1 < seq e" by (simp add: demoQueue_buffer)
  from listSince_limit_floor [OF a b]
  have "length (listSince 1 (Num 0) demoQueue) = 1"
    and "length (listSince 1 NegInfinity demoQueue) = 1" by auto
  with b show ?thesis by auto
qed

section \<open>Properties of the tracker\<close>

lemma isBtc_BTC: "isBtc ''BTC''"
  by code_simp

lemma isBtc_ETH: "\<not> isBtc ''ETH''"
  by code_simp

lemma parse_demoPositions: "parseSnapshot demoPositions = demoSnapshot"
  by (simp add: parseSnapshot_def demoPositions_def demoSnapshot_def isBtc_BTC isBtc_ETH)


subsection \<open>Repeated position notifications\<close>

text \<open>
  Claim C5. When a snapshot is stored for the address and the notification parses to a
  snapshot with the same size, entry price, liquidation price and leverage,
  \<open>onClearinghouse\<close> leaves the whole state as it is: nothing is pushed to the log, no
  call goes to the persistence module, and the stored snapshot keeps its data and its
  update time.
\<close>

theorem clearinghouse_noop:
  assumes "snapshots st addr = Some (prev, updatedAt)"
    and "ps_size prev = ps_size (parseSnapshot positions)"
    and "ps_entryPriceUsd prev = ps_entryPriceUsd (parseSnapshot positions)"
    and "ps_liquidationPriceUsd prev = ps_liquidationPriceUsd (parseSnapshot positions)"
    and "ps_leverage prev = ps_leverage (parseSnapshot positions)"
  shows "onClearinghouse addr positions now mark st = st
    \<and> buffer (tq (onClearinghouse addr positions now mark st)) = buffer (tq st)
    \<and> nextSeq (tq (onClearinghouse addr positions now mark st)) = nextSeq (tq st)
    \<and> writes (onClearinghouse addr positions now mark st) = writes st
    \<and> snapshots (onClearinghouse addr positions now mark st) addr = Some (prev, updatedAt)"
proof -
  have "\<not> snapshotChanged (map_option fst (snapshots st addr)) (parseSnapshot positions)"
    using assms by (simp add: snapshotChanged_def)
  then have "onClearinghouse addr positions now mark st = st"
    by (simp add: onClearinghouse_def Let_def)
  then show ?thesis using assms(1) by simp
qed

theorem clearinghouse_noop_witness:
  "snapshots demoTracker ''0xabc'' = Some (demoSnapshot, ''2024-01-01T00:00:00.000Z'')
   \<and> parseSnapshot demoPositions = demoSnapshot
   \<and> onClearinghouse ''0xabc'' demoPositions ''2024-01-02T00:00:00.000Z'' (Some 110) demoTracker
       = demoTracker"
proof -
  have s: "snapshots demoTracker ''0xabc'' = Some (demoSnapshot, ''2024-01-01T00:00:00.000Z'')"
    by (simp add: demoTracker_def)
  show ?thesis
    using clearinghouse_noop [OF s, of demoPositions "''2024-01-02T00:00:00.000Z''" "Some 110"] s
    by (simp add: parse_demoPositions)
qed

subsection \<open>Labels of a fill\<close>

lemma fillToTrade_finite:
  assumes "isBtc (f_coin f)" and "f_px f = Finite px" and "f_sz f = Finite sz"
    and "f_startPosition f = Finite sp"
  shows "\<exists>p t. fillToTrade addr f = Some (p, t)
    \<and> te_side t = (if f_side f = ''B'' then Buy else Sell)
    \<and> te_startPosition t = sp \<and> te_size t = \<bar>sz\<bar> \<and> te_priceUsd t = px
    \<and> te_effect t =
        (if \<bar>sp + (if f_side f = ''B'' then sz else - sz)\<bar> > \<bar>sp\<bar> then Open else Close)
    \<and> te_direction t =
        (let delta = (if f_side f = ''B'' then sz else - sz); newPos = sp + delta
         in if newPos > 0 then Long else if newPos < 0 then Short
            else if delta > 0 then Long else if delta < 0 then Short else Flat)
    \<and> te_action t =
        (let delta = (if f_side f = ''B'' then sz else - sz); newPos = sp + delta
         in if sp = 0 then (if delta > 0 then ''Open Long'' else ''Open Short'')
            else if sp > 0 then
              (if delta > 0 then ''Increase Long''
               else if newPos = 0 then ''Close Long'' else ''Decrease Long'')
            else
              (if delta < 0 then ''Increase Short''
               else if newPos = 0 then ''Close Short'' else ''Decrease Short''))
    \<and> tp_action p = te_action t"
  using assms by (simp add: fillToTrade_def Let_def sideFromSize_def)

lemma primeFromHttp_frame:
  "tq (snd (primeFromHttp addr opts nowMs st)) = tq st
   \<and> writes (snd (primeFromHttp addr opts nowMs st)) = writes st
   \<and> snapshots (snd (primeFromHttp addr opts nowMs st)) = snapshots st"
  by (simp add: primeFromHttp_def Let_def split: option.splits)

lemma processFills_single:
  assumes "fillToTrade addr f = Some (p, t)"
  shows "processFills addr [f] st =
    (True, st\<lparr>tq := snd (push (TradeEvent t) (tq st)),
              writes := writes st @ [InsertTradeIfNew addr p]\<rparr>)"
  using assms by (simp add: Let_def split: prod.splits)

lemma onUserEvents_single:
  assumes "fillToTrade addr f = Some (p, t)"
  shows "tq (onUserEvents addr [f] nowMs st) = snd (push (TradeEvent t) (tq st))"
  unfolding onUserEvents_def processFills_single [OF assms]
  by (simp add: primeFromHttp_frame)

text \<open>
  Claim C3. A BTC fill with finite price, size and starting position is not skipped; the
  trade event pushed for it has the side \<open>buy\<close> exactly for \<open>side = 'B'\<close>, and with
  \<open>delta = +size\<close> for a buy, \<open>-size\<close> for a sell and \<open>newPos = startPosition + delta\<close>,
  its effect is \<open>open\<close> exactly when \<open>|newPos| > |startPosition|\<close> and \<open>close\<close> otherwise
  (also when the two magnitudes are equal), and its direction is the sign of \<open>newPos\<close>,
  or the sign of \<open>delta\<close> when \<open>newPos\<close> is zero.
\<close>

theorem fill_effect_direction:
  assumes "isBtc (f_coin f)" and "f_px f = Finite px" and "f_sz f = Finite sz"
    and "f_startPosition f = Finite startPosition"
  shows "\<exists>p t. fillToTrade addr f = Some (p, t)
    \<and> tq (onUserEvents addr [f] nowMs st) = snd (push (TradeEvent t) (tq st))
    \<and> te_side t = (if f_side f = ''B'' then Buy else Sell)
    \<and> (let delta = (if te_side t = Buy then sz else - sz); newPos = startPosition + delta
        in (te_effect t = Open \<longleftrightarrow> \<bar>newPos\<bar> > \<bar>startPosition\<bar>)
         \<and> (te_effect t = Close \<longleftrightarrow> \<bar>newPos\<bar> \<le> \<bar>startPosition\<bar>)
         \<and> te_direction t =
             (if newPos > 0 then Long else if newPos < 0 then Short
              else if delta > 0 then Long else if delta < 0 then Short else Flat))"
proof -
  from fillToTrade_finite [OF assms, of addr] obtain p t where
    pt: "fillToTrade addr f = Some (p, t)"
    and side: "te_side t = (if f_side f = ''B'' then Buy else Sell)"
    and eff: "te_effect t =
        (if \<bar>startPosition + (if f_side f = ''B'' then sz else - sz)\<bar> > \<bar>startPosition\<bar>
         then Open else Close)"
    and dir: "te_direction t =
        (let delta = (if f_side f = ''B'' then sz else - sz); newPos = startPosition + delta
         in if newPos > 0 then Long else if newPos < 0 then Short
            else if delta > 0 then Long else if delta < 0 then Short else Flat)"
    by blast
  have d: "(if te_side t = Buy then sz else - sz) = (if f_side f = ''B'' then sz else - sz)"
    using side by simp
  have "let delta = (if te_side t = Buy then sz else - sz); newPos = startPosition + delta
        in (te_effect t = Open \<longleftrightarrow> \<bar>newPos\<bar> > \<bar>startPosition\<bar>)
         \<and> (te_effect t = Close \<longleftrightarrow> \<bar>newPos\<bar> \<le> \<bar>startPosition\<bar>)
         \<and> te_direction t =
             (if newPos > 0 then Long else if newPos < 0 then Short
              else if delta > 0 then Long else if delta < 0 then Short else Flat)"
    unfolding d using eff dir by (simp add: Let_def not_less)
  with pt side onUserEvents_single [OF pt] show ?thesis by blast
qed

lemma demo_closing_fill:
  "fillToTrade ''0xabc'' (demoFill ''A'' 5 5) =
     Some (\<lparr>tp_at = ''2024-01-01T00:00:00.000Z'', tp_address = ''0xabc'',
             tp_action = ''Close Long'', tp_size = 5, tp_startPosition = 5,
             tp_priceUsd = 50000, tp_realizedPnlUsd = None, tp_fee = None,
             tp_feeToken = None, tp_hash = None\<rparr>,
           \<lparr>te_at = ''2024-01-01T00:00:00.000Z'', te_address = ''0xabc'',
             te_side = Sell, te_direction = Short, te_effect = Close,
             te_priceUsd = 50000, te_size = 5, te_realizedPnlUsd = None,
             te_startPosition = 5, te_fee = None, te_feeToken = None,
             te_hash = None, te_action = ''Close Long'', te_dbId = None\<rparr>)"
  by (simp add: fillToTrade_def demoFill_def isBtc_BTC Let_def sideFromSize_def)

theorem fill_effect_direction_witness:
  "isBtc (f_coin (demoFill ''A'' 5 5))
   \<and> f_px (demoFill ''A'' 5 5) = Finite 50000
   \<and> f_sz (demoFill ''A'' 5 5) = Finite 5
   \<and> f_startPosition (demoFill ''A'' 5 5) = Finite 5
   \<and> map_option (te_effect \<circ> snd) (fillToTrade ''0xabc'' (demoFill ''A'' 5 5)) = Some Close
   \<and> map_option (te_direction \<circ> snd) (fillToTrade ''0xabc'' (demoFill ''A'' 5 5)) = Some Short"
proof -
  have a: "isBtc (f_coin (demoFill ''A'' 5 5))" by (simp add: demoFill_def isBtc_BTC)
  have b: "f_px (demoFill ''A'' 5 5) = Finite 50000" by (simp add: demoFill_def)
  have c: "f_sz (demoFill ''A'' 5 5) = Finite 5" by (simp add: demoFill_def)
  have d: "f_startPosition (demoFill ''A'' 5 5) = Finite 5" by (simp add: demoFill_def)
  from fill_effect_direction [OF a b c d, of "''0xabc''" 0 demoTracker]
  obtain p t where pt: "fillToTrade ''0xabc'' (demoFill ''A'' 5 5) = Some (p, t)"
    and "let delta = (if te_side t = Buy then 5 else - 5); newPos = 5 + delta
         in (te_effect t = Open \<longleftrightarrow> \<bar>newPos\<bar> > \<bar>5::real\<bar>)
          \<and> (te_effect t = Close \<longleftrightarrow> \<bar>newPos\<bar> \<le> \<bar>5\<bar>)
          \<and> te_direction t =
              (if newPos > 0 then Long else if newPos < 0 then Short
               else if delta > 0 then Long else if delta < 0 then Short else Flat)"
    by blast
  then have "te_effect t = Close \<and> te_direction t = Short"
    unfolding demo_closing_fill by (auto simp: Let_def)
  with pt a b c d show ?thesis by simp
qed

text \<open>
  Claim C4, the stated table fails: a buy of size zero on a long position of 5 has
  \<open>delta = 0\<close>, which is not positive, and is labelled \<open>Decrease Long\<close>, where the
  claim's row "starting long with a buy" says \<open>Increase Long\<close>.
\<close>

theorem fill_action_counterexample:
  "map_option (te_side \<circ> snd) (fillToTrade ''0xabc'' (demoFill ''B'' 0 5)) = Some Buy
   \<and> map_option (te_startPosition \<circ> snd) (fillToTrade ''0xabc'' (demoFill ''B'' 0 5)) = Some 5
   \<and> map_option (te_action \<circ> snd) (fillToTrade ''0xabc'' (demoFill ''B'' 0 5))
       = Some ''Decrease Long''
   \<and> map_option (te_action \<circ> snd) (fillToTrade ''0xabc'' (demoFill ''B'' 0 5))
       \<noteq> Some ''Increase Long''"
  by (simp add: fillToTrade_def demoFill_def isBtc_BTC Let_def)

text \<open>
  Claim C4, amended. The label is read off the signs of the starting position and of
  \<open>delta\<close>: from a flat position \<open>Open Long\<close> when \<open>delta > 0\<close>, else \<open>Open Short\<close>;
  from a long position \<open>Increase Long\<close> when \<open>delta > 0\<close>, else \<open>Close Long\<close> when the
  new position is zero and \<open>Decrease Long\<close> otherwise; from a short position
  \<open>Increase Short\<close> when \<open>delta < 0\<close>, else \<open>Close Short\<close> when the new position is
  zero and \<open>Decrease Short\<close> otherwise. For a fill of positive size, \<open>delta > 0\<close> is a
  buy and \<open>delta < 0\<close> a sell, and the table reads by side as the claim has it. The
  payload handed to the persistence module carries the same label.
\<close>

theorem fill_action_label:
  assumes "isBtc (f_coin f)" and "f_px f = Finite px" and "f_sz f = Finite sz"
    and "f_startPosition f = Finite startPosition"
  shows "\<exists>p t. fillToTrade addr f = Some (p, t)
    \<and> tq (onUserEvents addr [f] nowMs st) = snd (push (TradeEvent t) (tq st))
    \<and> tp_action p = te_action t
    \<and> (let delta = (if te_side t = Buy then sz else - sz); newPos = startPosition + delta
        in te_action t =
            (if startPosition = 0 then (if delta > 0 then ''Open Long'' else ''Open Short'')
             else if startPosition > 0 then
               (if delta > 0 then ''Increase Long''
                else if newPos = 0 then ''Close Long'' else ''Decrease Long'')
             else
               (if delta < 0 then ''Increase Short''
                else if newPos = 0 then ''Close Short'' else ''Decrease Short''))
          \<and> (sz > 0 \<longrightarrow> te_action t =
            (if startPosition = 0
             then (if te_side t = Buy then ''Open Long'' else ''Open Short'')
             else if startPosition > 0 then
               (if te_side t = Buy then ''Increase Long''
                else if newPos = 0 then ''Close Long'' else ''Decrease Long'')
             else
               (if te_side t = Sell then ''Increase Short''
                else if newPos = 0 then ''Close Short'' else ''Decrease Short''))))"
proof -
  from fillToTrade_finite [OF assms, of addr] obtain p t where
    pt: "fillToTrade addr f = Some (p, t)"
    and side: "te_side t = (if f_side f = ''B'' then Buy else Sell)"
    and act: "te_action t =
        (let delta = (if f_side f = ''B'' then sz else - sz); newPos = startPosition + delta
         in if startPosition = 0 then (if delta > 0 then ''Open Long'' else ''Open Short'')
            else if startPosition > 0 then
              (if delta > 0 then ''Increase Long''
               else if newPos = 0 then ''Close Long'' else ''Decrease Long'')
            else
              (if delta < 0 then ''Increase Short''
               else if newPos = 0 then ''Close Short'' else ''Decrease Short''))"
    and pa: "tp_action p = te_action t"
    by blast
  have d: "(if te_side t = Buy then sz else - sz) = (if f_side f = ''B'' then sz else - sz)"
    using side by simp
  have "let delta = (if te_side t = Buy then sz else - sz); newPos = startPosition + delta
        in te_action t =
            (if startPosition = 0 then (if delta > 0 then ''Open Long'' else ''Open Short'')
             else if startPosition > 0 then
               (if delta > 0 then ''Increase Long''
                else if newPos = 0 then ''Close Long'' else ''Decrease Long'')
             else
               (if delta < 0 then ''Increase Short''
                else if newPos = 0 then ''Close Short'' else ''Decrease Short''))
          \<and> (sz > 0 \<longrightarrow> te_action t =
            (if startPosition = 0
             then (if te_side t = Buy then ''Open Long'' else ''Open Short'')
             else if startPosition > 0 then
               (if te_side t = Buy then ''Increase Long''
                else if newPos = 0 then ''Close Long'' else ''Decrease Long'')
             else
               (if te_side t = Sell then ''Increase Short''
                else if newPos = 0 then ''Close Short'' else ''Decrease Short'')))"
    unfolding d using act side by (simp add: Let_def)
  with pt pa onUserEvents_single [OF pt] show ?thesis by blast
qed

theorem fill_action_label_witness:
  "isBtc (f_coin (demoFill ''A'' 5 5))
   \<and> f_px (demoFill ''A'' 5 5) = Finite 50000
   \<and> f_sz (demoFill ''A'' 5 5) = Finite 5
   \<and> f_startPosition (demoFill ''A'' 5 5) = Finite 5
   \<and> (0::real) < 5
   \<and> map_option (te_side \<circ> snd) (fillToTrade ''0xabc'' (demoFill ''A'' 5 5)) = Some Sell
   \<and> map_option (te_action \<circ> snd) (fillToTrade ''0xabc'' (demoFill ''A'' 5 5))
       = Some ''Close Long''
   \<and> map_option (tp_action \<circ> fst) (fillToTrade ''0xabc'' (demoFill ''A'' 5 5))
       = Some ''Close Long''"
proof -
  have a: "isBtc (f_coin (demoFill ''A'' 5 5))" by (simp add: demoFill_def isBtc_BTC)
  have b: "f_px (demoFill ''A'' 5 5) = Finite 50000" by (simp add: demoFill_def)
  have c: "f_sz (demoFill ''A'' 5 5) = Finite 5" by (simp add: demoFill_def)
  have d: "f_startPosition (demoFill ''A'' 5 5) = Finite 5" by (simp add: demoFill_def)
  from fill_action_label [OF a b c d, of "''0xabc''" 0 demoTracker]
  obtain p t where pt: "fillToTrade ''0xabc'' (demoFill ''A'' 5 5) = Some (p, t)"
    and pa: "tp_action p = te_action t"
    and tab: "let delta = (if te_side t = Buy then (5::real) else - 5); newPos = 5 + delta
        in (0 < (5::real) \<longrightarrow> te_action t =
            (if (5::real) = 0
             then (if te_side t = Buy then ''Open Long'' else ''Open Short'')
             else if (5::real) > 0 then
               (if te_side t = Buy then ''Increase Long''
                else if newPos = 0 then ''Close Long'' else ''Decrease Long'')
             else
               (if te_side t = Sell then ''Increase Short''
                else if newPos = 0 then ''Close Short'' else ''Decrease Short'')))"
    unfolding Let_def by blast
  from pt have side: "te_side t = Sell"
    unfolding demo_closing_fill by auto
  have "te_action t = ''Close Long''"
    using tab unfolding side Let_def by simp
  with pt pa side a b c d show ?thesis by simp
qed

subsection \<open>Priming\<close>

lemma recordSnapshot_effect:
  "recordSnapshot addr snapshot now mark st =
     st\<lparr>snapshots := (snapshots st)(addr \<mapsto> (snapshot, now)),
        tq := snd (push (PositionEvent
              \<lparr>pe_at = now, pe_address = addr, pe_size = ps_size snapshot,
               pe_side = sideFromSize (ps_size snapshot),
               pe_entryPriceUsd = ps_entryPriceUsd snapshot,
               pe_liquidationPriceUsd = ps_liquidationPriceUsd snapshot,
               pe_leverage = ps_leverage snapshot,
               pe_pnlUsd = unrealizedPnl snapshot mark\<rparr>) (tq st)),
        writes := writes st @
          [InsertEvent (fst (push (PositionEvent
              \<lparr>pe_at = now, pe_address = addr, pe_size = ps_size snapshot,
               pe_side = sideFromSize (ps_size snapshot),
               pe_entryPriceUsd = ps_entryPriceUsd snapshot,
               pe_liquidationPriceUsd = ps_liquidationPriceUsd snapshot,
               pe_leverage = ps_leverage snapshot,
               pe_pnlUsd = unrealizedPnl snapshot mark\<rparr>) (tq st))),
           UpsertCurrentPosition
             \<lparr>cp_address = addr, cp_size = ps_size snapshot,
              cp_entryPriceUsd = ps_entryPriceUsd snapshot,
              cp_liquidationPriceUsd = ps_liquidationPriceUsd snapshot,
              cp_leverage = ps_leverage snapshot, cp_pnlUsd = unrealizedPnl snapshot mark,
              cp_updatedAt = now\<rparr>]\<rparr>"
  by (simp add: recordSnapshot_def Let_def split: prod.splits)

text \<open>
  Claim C6, the stated no-op fails: \<open>performPrime\<close> does not compare with the stored
  snapshot. A pull that reproduces the stored snapshot still pushes one event and issues
  two persistence calls.
\<close>

theorem prime_equal_snapshot_counterexample:
  "map_option fst (snapshots demoTracker ''0xabc'') = Some (parseSnapshot demoPositions)
   \<and> length (buffer (tq (performPrime ''0xabc'' (Some demoPositions)
         ''2024-01-02T00:00:00.000Z'' (Some 110) demoTracker)))
       = length (buffer (tq demoTracker)) + 1
   \<and> length (writes (performPrime ''0xabc'' (Some demoPositions)
         ''2024-01-02T00:00:00.000Z'' (Some 110) demoTracker))
       = length (writes demoTracker) + 2"
  by (simp add: performPrime_def recordSnapshot_effect parse_demoPositions push_length)
     (simp add: demoTracker_def newEventQueue_def)

text \<open>
  Claim C6, amended. A successful priming pull always stores the parsed snapshot with the
  new time, pushes a position event with the next sequence number whose PnL is
  \<open>size * (mark - entry)\<close> when entry price and mark price are both available and null
  otherwise, and calls \<open>insertEvent\<close> and \<open>upsertCurrentPosition\<close>, whatever snapshot
  was stored before. When a field differs from the stored snapshot, or none is stored,
  the resulting state is the one the live clearinghouse path produces from the same data.
  A failed pull changes nothing.
\<close>

theorem prime_always_records:
  "(let snapshot = parseSnapshot positions;
        pnl = (case (ps_entryPriceUsd snapshot, mark) of
                 (Some entry, Some m) \<Rightarrow> Some (ps_size snapshot * (m - entry))
               | _ \<Rightarrow> None);
        pushed = push (PositionEvent
              \<lparr>pe_at = now, pe_address = addr, pe_size = ps_size snapshot,
               pe_side = sideFromSize (ps_size snapshot),
               pe_entryPriceUsd = ps_entryPriceUsd snapshot,
               pe_liquidationPriceUsd = ps_liquidationPriceUsd snapshot,
               pe_leverage = ps_leverage snapshot, pe_pnlUsd = pnl\<rparr>) (tq st);
        st' = performPrime addr (Some positions) now mark st
    in tq st' = snd pushed
     \<and> seq (fst pushed) = nextSeq (tq st)
     \<and> writes st' = writes st @
          [InsertEvent (fst pushed),
           UpsertCurrentPosition
             \<lparr>cp_address = addr, cp_size = ps_size snapshot,
              cp_entryPriceUsd = ps_entryPriceUsd snapshot,
              cp_liquidationPriceUsd = ps_liquidationPriceUsd snapshot,
              cp_leverage = ps_leverage snapshot, cp_pnlUsd = pnl, cp_updatedAt = now\<rparr>]
     \<and> snapshots st' addr = Some (snapshot, now)
     \<and> (snapshotChanged (map_option fst (snapshots st addr)) snapshot \<longrightarrow>
          st' = onClearinghouse addr positions now mark st))
   \<and> performPrime addr None now mark st = st"
  by (simp add: performPrime_def recordSnapshot_effect onClearinghouse_def Let_def
      unrealizedPnl_def push_fst)

theorem prime_always_records_witness:
  "snapshotChanged (map_option fst (snapshots demoTracker ''0xdef'')) (parseSnapshot demoPositions)
   \<and> performPrime ''0xdef'' (Some demoPositions) ''2024-01-02T00:00:00.000Z'' (Some 110) demoTracker
       = onClearinghouse ''0xdef'' demoPositions ''2024-01-02T00:00:00.000Z'' (Some 110) demoTracker
   \<and> snapshots (performPrime ''0xdef'' (Some demoPositions) ''2024-01-02T00:00:00.000Z''
         (Some 110) demoTracker) ''0xdef''
       = Some (demoSnapshot, ''2024-01-02T00:00:00.000Z'')"
proof -
  have c: "snapshotChanged (map_option fst (snapshots demoTracker ''0xdef''))
      (parseSnapshot demoPositions)"
    by (simp add: snapshotChanged_def demoTracker_def)
  note inst = prime_always_records [of demoPositions "Some 110" "''2024-01-02T00:00:00.000Z''"
      "''0xdef''" demoTracker, unfolded Let_def]
  have s: "snapshots (performPrime ''0xdef'' (Some demoPositions) ''2024-01-02T00:00:00.000Z''
         (Some 110) demoTracker) ''0xdef''
       = Some (parseSnapshot demoPositions, ''2024-01-02T00:00:00.000Z'')"
    using inst by blast
  have e: "performPrime ''0xdef'' (Some demoPositions) ''2024-01-02T00:00:00.000Z'' (Some 110)
        demoTracker
       = onClearinghouse ''0xdef'' demoPositions ''2024-01-02T00:00:00.000Z'' (Some 110)
        demoTracker"
    using inst c by blast
  show ?thesis
    using c e s unfolding parse_demoPositions by (intro conjI)
qed

text \<open>
  Claim C7. When a call of \<open>primeFromHttp\<close> has started a task for an address, a
  second call for that address made while the task is in flight returns the same pending
  task and leaves the state as it is, so that the pull has been issued once for the two
  calls; this holds in every state in which the task is still registered. The task
  settles once, which removes it from the in-flight map and records the time.
\<close>

theorem prime_coalescing:
  assumes "primeInflight st addr = None"
    and "primeFromHttp addr opts1 nowMs1 st = (Pending task, st1)"
  shows "primeFromHttp addr opts2 nowMs2 st1 = (Pending task, st1)
    \<and> pulls st1 = pulls st @ [addr]
    \<and> pulls (snd (primeFromHttp addr opts2 nowMs2 st1)) = pulls st @ [addr]
    \<and> primeInflight st1 addr = Some task
    \<and> (\<forall>st'. primeInflight st' addr = Some task \<longrightarrow>
          primeFromHttp addr opts2 nowMs2 st' = (Pending task, st'))
    \<and> primeInflight (settlePrime addr pulled now mark nowMs3 st1) addr = None
    \<and> lastPrimeAt (settlePrime addr pulled now mark nowMs3 st1) addr = Some nowMs3"
proof -
  have joined: "primeFromHttp addr opts2 nowMs2 st' = (Pending task, st')"
    if "primeInflight st' addr = Some task" for st'
    using that by (simp add: primeFromHttp_def Let_def)
  have started: "primeInflight st1 addr = Some task \<and> pulls st1 = pulls st @ [addr]"
    using assms by (auto simp: primeFromHttp_def Let_def split: if_splits)
  have settled: "primeInflight (settlePrime addr pulled now mark nowMs3 st1) addr = None
      \<and> lastPrimeAt (settlePrime addr pulled now mark nowMs3 st1) addr = Some nowMs3"
    by (simp add: settlePrime_def Let_def)
  show ?thesis
    using joined started settled by simp
qed

theorem prime_coalescing_witness:
  "primeInflight demoTracker ''0xabc'' = None
   \<and> primeFromHttp ''0xabc'' None 1000 demoTracker
       = (Pending 0, snd (primeFromHttp ''0xabc'' None 1000 demoTracker))
   \<and> primeFromHttp ''0xabc'' None 1001 (snd (primeFromHttp ''0xabc'' None 1000 demoTracker))
       = (Pending 0, snd (primeFromHttp ''0xabc'' None 1000 demoTracker))
   \<and> pulls (snd (primeFromHttp ''0xabc'' None 1001
         (snd (primeFromHttp ''0xabc'' None 1000 demoTracker)))) = [''0xabc'']"
proof -
  have a: "primeInflight demoTracker ''0xabc'' = None" by (simp add: demoTracker_def)
  have b: "primeFromHttp ''0xabc'' None 1000 demoTracker
       = (Pending 0, snd (primeFromHttp ''0xabc'' None 1000 demoTracker))"
    by (simp add: primeFromHttp_def demoTracker_def Let_def)
  have p: "pulls demoTracker = []" by (simp add: demoTracker_def)
  show ?thesis
    using prime_coalescing [OF a b, of None 1001] a b p by simp
qed

section \<open>Properties of the merge\<close>

lemma collectAdditions_keys:
  "key ` set (collectAdditions key seen xs) = key ` set xs - seen"
  by (induction xs arbitrary: seen) auto

lemma collectAdditions_subset: "set (collectAdditions key seen xs) \<subseteq> set xs"
  by (induction xs arbitrary: seen) auto

lemma collectAdditions_distinct: "distinct (map key (collectAdditions key seen xs))"
proof (induction xs arbitrary: seen)
  case Nil
  show ?case by simp
next
  case (Cons x xs)
  have "key x \<notin> key ` set (collectAdditions key (insert (key x) seen) xs)"
    unfolding collectAdditions_keys by simp
  with Cons show ?case by simp
qed

lemma collectAdditions_Nil:
  "collectAdditions key seen xs = [] \<longleftrightarrow> key ` set xs \<subseteq> seen"
  by (induction xs arbitrary: seen) auto

lemma mset_insertSorted: "mset (insertSorted cmp x ys) = add_mset x (mset ys)"
  by (induction ys) auto

lemma mset_sortWith: "mset (sortWith cmp xs) = mset xs"
  by (induction xs) (auto simp: mset_insertSorted)

lemma set_sortWith: "set (sortWith cmp xs) = set xs"
  using mset_sortWith [of cmp xs] by (metis set_mset_mset)

lemma distinct_sortWith:
  "distinct (map key (sortWith cmp xs)) \<longleftrightarrow> distinct (map key xs)"
proof -
  have "mset (map key (sortWith cmp xs)) = mset (map key xs)"
    by (simp add: mset_sortWith)
  then show ?thesis by (rule mset_eq_imp_distinct_iff)
qed

lemma compareTrades_notOlder:
  "comparable dateMs a \<Longrightarrow> comparable dateMs b \<Longrightarrow>
   compareTrades dateMs a b \<le> 0 \<longleftrightarrow> notOlder dateMs a b"
  by (auto simp: comparable_def compareTrades_def notOlder_def split: if_splits)

lemma notOlder_total:
  "comparable dateMs a \<Longrightarrow> comparable dateMs b \<Longrightarrow>
   notOlder dateMs a b \<or> notOlder dateMs b a"
  by (auto simp: comparable_def notOlder_def)

lemma notOlder_trans:
  "notOlder dateMs a b \<Longrightarrow> notOlder dateMs b c \<Longrightarrow> notOlder dateMs a c"
  by (auto simp: notOlder_def split: option.splits)

lemma sorted_insertSorted:
  assumes "\<forall>t\<in>insert x (set ys). comparable dateMs t"
    and "sorted_wrt (notOlder dateMs) ys"
  shows "sorted_wrt (notOlder dateMs) (insertSorted (compareTrades dateMs) x ys)"
  using assms
proof (induction ys)
  case Nil
  show ?case by simp
next
  case (Cons y ys)
  show ?case
  proof (cases "compareTrades dateMs x y \<le> 0")
    case True
    then have xy: "notOlder dateMs x y"
      using Cons.prems(1) by (simp add: compareTrades_notOlder)
    then have "\<forall>z\<in>set ys. notOlder dateMs x z"
      using Cons.prems(2) by (auto intro: notOlder_trans)
    with True xy Cons.prems(2) show ?thesis by simp
  next
    case False
    then have "\<not> notOlder dateMs x y"
      using Cons.prems(1) by (simp add: compareTrades_notOlder)
    then have yx: "notOlder dateMs y x"
      using notOlder_total [of dateMs x y] Cons.prems(1) by auto
    have "sorted_wrt (notOlder dateMs) (insertSorted (compareTrades dateMs) x ys)"
      using Cons by simp
    moreover have "set (insertSorted (compareTrades dateMs) x ys) = insert x (set ys)"
      using mset_insertSorted [of "compareTrades dateMs" x ys] by (metis set_mset_add_mset_insert set_mset_mset)
    ultimately show ?thesis
      using False yx Cons.prems(2) by auto
  qed
qed

lemma sorted_sortWith:
  "\<forall>t\<in>set xs. comparable dateMs t \<Longrightarrow>
   sorted_wrt (notOlder dateMs) (sortWith (compareTrades dateMs) xs)"
proof (induction xs)
  case Nil
  show ?case by simp
next
  case (Cons x xs)
  then show ?case
    by (simp add: sorted_insertSorted set_sortWith)
qed

text \<open>
  What \<open>mergeTrades\<close> returns, as a multiset: the existing rows and the incoming rows
  whose key is new, no row lost and none repeated.
\<close>

lemma mergeTrades_mset:
  "mset (mergeTrades numStr dateMs existing incoming) =
     mset existing + mset (collectAdditions (tradeKey numStr)
        (set (map (tradeKey numStr) existing)) incoming)"
  by (simp add: mergeTrades_def Let_def mset_sortWith)

lemma mergeTrades_set:
  "set (mergeTrades numStr dateMs existing incoming) =
     set existing \<union> set (collectAdditions (tradeKey numStr)
        (set (map (tradeKey numStr) existing)) incoming)"
  using mergeTrades_mset [of numStr dateMs existing incoming]
  by (metis set_mset_mset set_mset_union)

lemma mergeTrades_keys:
  "tradeKey numStr ` set (mergeTrades numStr dateMs existing incoming) =
     tradeKey numStr ` set existing \<union> tradeKey numStr ` set incoming"
  unfolding mergeTrades_set image_Un collectAdditions_keys by auto

text \<open>Merging the same incoming list again changes nothing, whatever the two lists are.\<close>

lemma mergeTrades_idem:
  "mergeTrades numStr dateMs (mergeTrades numStr dateMs existing incoming) incoming =
     mergeTrades numStr dateMs existing incoming"
proof -
  let ?m = "mergeTrades numStr dateMs existing incoming"
  have "tradeKey numStr ` set incoming \<subseteq> set (map (tradeKey numStr) ?m)"
    using mergeTrades_keys [of numStr dateMs existing incoming] by auto
  then have "collectAdditions (tradeKey numStr) (set (map (tradeKey numStr) ?m)) incoming = []"
    by (simp only: collectAdditions_Nil)
  then show ?thesis
    by (simp add: mergeTrades_def [of numStr dateMs ?m] Let_def)
qed

text \<open>No two rows of the result have the same key, when no two existing rows have.\<close>

lemma mergeTrades_distinct:
  assumes "distinct (map (tradeKey numStr) existing)"
  shows "distinct (map (tradeKey numStr) (mergeTrades numStr dateMs existing incoming))"
proof -
  let ?k = "tradeKey numStr"
  let ?a = "collectAdditions ?k (set (map ?k existing)) incoming"
  have "?k ` set existing \<inter> ?k ` set ?a = {}"
    unfolding collectAdditions_keys by auto
  then have "distinct (map ?k (existing @ ?a))"
    using assms collectAdditions_distinct [of ?k _ incoming] by simp
  then show ?thesis
    using assms by (simp add: mergeTrades_def Let_def distinct_sortWith del: map_append)
qed

text \<open>
  The result is sorted descending by (time, id) whenever a row is added; when none is
  added it is \<open>existing\<close> as it came, sorted only if \<open>existing\<close> was.
\<close>

lemma mergeTrades_sorted_when_added:
  assumes "\<forall>t\<in>set existing \<union> set incoming. comparable dateMs t"
    and "\<not> tradeKey numStr ` set incoming \<subseteq> tradeKey numStr ` set existing
         \<or> sortedDescByTimeId dateMs existing"
  shows "sortedDescByTimeId dateMs (mergeTrades numStr dateMs existing incoming)"
proof -
  let ?a = "collectAdditions (tradeKey numStr) (set (map (tradeKey numStr) existing)) incoming"
  have "\<forall>t\<in>set (existing @ ?a). comparable dateMs t"
    using assms(1) collectAdditions_subset [of "tradeKey numStr" _ incoming] by auto
  then have s: "sorted_wrt (notOlder dateMs) (sortWith (compareTrades dateMs) (existing @ ?a))"
    by (rule sorted_sortWith)
  have "?a = [] \<longrightarrow> sortedDescByTimeId dateMs existing"
    using assms(2) by (simp add: collectAdditions_Nil)
  with s show ?thesis
    by (simp add: mergeTrades_def Let_def sortedDescByTimeId_def)
qed

lemma mergeTrades_nothing_added:
  "tradeKey numStr ` set incoming \<subseteq> tradeKey numStr ` set existing \<Longrightarrow>
   mergeTrades numStr dateMs existing incoming = existing"
  by (simp add: mergeTrades_def Let_def collectAdditions_Nil)

text \<open>
  The layers of the key. Two rows with a transaction hash have the same key when the
  hashes agree up to case, whatever else differs; the field \<open>hash\<close> stands in for a
  missing \<open>tx\<close>; without either, rows with the same numeric \<open>id\<close> have the same key;
  without any of the three, the key is made of time, address, size and price. A key of
  the first layer is never one of the later layers.
\<close>

lemma tradeKey_tx:
  assumes "tr_tx a = Some u" and "u \<noteq> []" and "tr_tx b = Some v" and "v \<noteq> []"
    and "toLowerCase u = toLowerCase v"
  shows "tradeKey numStr a = tradeKey numStr b"
  using assms by (simp add: tradeKey_def truthy_def)

lemma tradeKey_hash:
  assumes "\<not> truthy (tr_tx a)" and "tr_hash a = Some h" and "h \<noteq> []"
    and "tr_tx b = Some v" and "v \<noteq> []" and "toLowerCase h = toLowerCase v"
  shows "tradeKey numStr a = tradeKey numStr b"
  using assms by (simp add: tradeKey_def truthy_def)

lemma tradeKey_id:
  assumes "\<not> truthy (tr_tx a)" and "\<not> truthy (tr_hash a)"
    and "\<not> truthy (tr_tx b)" and "\<not> truthy (tr_hash b)"
    and "tr_id a = IdNumber i" and "tr_id b = IdNumber i"
  shows "tradeKey numStr a = tradeKey numStr b"
  using assms by (simp add: tradeKey_def)

lemma tradeKey_composite:
  assumes "\<not> truthy (tr_tx a)" and "\<not> truthy (tr_hash a)"
    and "\<not> truthy (tr_tx b)" and "\<not> truthy (tr_hash b)"
    and "tr_id a \<in> {IdNull, IdUndefined}" and "tr_id b \<in> {IdNull, IdUndefined}"
    and "tr_time a = tr_time b" and "tr_address a = tr_address b"
    and "tr_size a = tr_size b" and "tr_price a = tr_price b"
  shows "tradeKey numStr a = tradeKey numStr b"
  using assms by (auto simp: tradeKey_def)

lemma tradeKey_layers_apart:
  assumes "truthy (tr_tx a) \<or> truthy (tr_hash a)"
    and "\<not> truthy (tr_tx b)" and "\<not> truthy (tr_hash b)"
  shows "tradeKey numStr a \<noteq> tradeKey numStr b"
  using assms by (auto simp: tradeKey_def split: RowId.splits)

lemma demo_keys:
  "map (tradeKey demoNumStr) demoExisting = [''tx:0xabc'', ''id:2'']"
  "map (tradeKey demoNumStr) demoIncoming = [''tx:0xabc'', ''id:4'']"
  "map (tradeKey demoNumStr) tiedExisting = [''id:1'', ''id:2'']"
  by code_simp+

text \<open>
  An example with an addition: the incoming row that repeats a transaction hash is
  dropped, the new row is added and the result is sorted, newest first.
\<close>

lemma demo_merge:
  "mergeTrades demoNumStr demoDateMs demoExisting demoIncoming =
     [demoRow 4 ''2024-01-01T00:00:04.000Z'' None,
      demoRow 3 ''2024-01-01T00:00:03.000Z'' (Some ''0xABC''),
      demoRow 2 ''2024-01-01T00:00:02.000Z'' None]"
  by code_simp

lemma tied_times:
  "demoDateMs (tr_time (demoRow i ''2024-01-01T00:00:03.000Z'' tx)) = Some 1704067203000"
  by (simp add: demoRow_def demoDateMs_def)

text \<open>
  Claim C8, where no row is added. \<open>tiedExisting\<close> has no duplicate key and is in
  chronological order (its two rows have the same time). Merged with an empty page, or
  with a page that only repeats one of its rows, it comes back as it is, the \<open>id\<close> 1
  before the \<open>id\<close> 2: the return before the sort hands out a copy of \<open>existing\<close>. This
  is not sorted descending by (time, id); sorting the two rows puts the \<open>id\<close> 2 first.
\<close>

theorem mergeTrades_early_return_unsorted:
  "distinct (map (tradeKey demoNumStr) tiedExisting)
   \<and> chronological demoDateMs tiedExisting
   \<and> mergeTrades demoNumStr demoDateMs tiedExisting [] = tiedExisting
   \<and> mergeTrades demoNumStr demoDateMs tiedExisting
         [demoRow 2 ''2024-01-01T00:00:03.000Z'' None] = tiedExisting
   \<and> \<not> sortedDescByTimeId demoDateMs (mergeTrades demoNumStr demoDateMs tiedExisting [])
   \<and> sortWith (compareTrades demoDateMs) tiedExisting =
        [demoRow 2 ''2024-01-01T00:00:03.000Z'' None,
         demoRow 1 ''2024-01-01T00:00:03.000Z'' None]"
proof -
  have d: "distinct (map (tradeKey demoNumStr) tiedExisting)"
    unfolding demo_keys by simp
  have c: "chronological demoDateMs tiedExisting"
    by (simp add: chronological_def tiedExisting_def tied_times)
  have e: "mergeTrades demoNumStr demoDateMs tiedExisting [] = tiedExisting"
    by (simp add: mergeTrades_def)
  have "tradeKey demoNumStr (demoRow 2 ''2024-01-01T00:00:03.000Z'' None) = ''id:2''"
    using demo_keys(3) by (simp add: tiedExisting_def)
  then have r: "mergeTrades demoNumStr demoDateMs tiedExisting
      [demoRow 2 ''2024-01-01T00:00:03.000Z'' None] = tiedExisting"
    by (simp add: mergeTrades_def demo_keys(3))
  have ids: "idNumber (tr_id (demoRow i t x)) = Some i" for i t x
    by (simp add: demoRow_def idNumber_def)
  have n: "\<not> sortedDescByTimeId demoDateMs tiedExisting"
    by (simp add: sortedDescByTimeId_def notOlder_def tiedExisting_def tied_times ids)
  have s: "sortWith (compareTrades demoDateMs) tiedExisting =
        [demoRow 2 ''2024-01-01T00:00:03.000Z'' None,
         demoRow 1 ''2024-01-01T00:00:03.000Z'' None]"
    by (simp add: tiedExisting_def compareTrades_def tied_times ids)
  show ?thesis using d c e r n s by simp
qed

end
